theory Spec2Isabelle
  imports Main "HOL-Library.Sublist" "HOL-Library.AList"
begin

section \<open>The C3.ai data lake client (c3aidatalake.py)\<close>

text \<open>
  The module has four functions: \<^verbatim>\<open>read_data_json\<close> (one HTTP POST), \<^verbatim>\<open>fetch\<close>
  (paginated records), \<^verbatim>\<open>evalmetrics\<close> (batched time series) and
  \<^verbatim>\<open>getprojectionhistory\<close>. They are embedded below under their own names. The two
  libraries they call are outside the module: the HTTP library is a server function that
  answers each request, and the data frame library is modelled, operation by operation,
  by the functions of the subsection on data frames.
\<close>

subsection \<open>JSON values and Python exceptions\<close>

text \<open>
  A parsed JSON value. A Python dict keeps its keys in insertion order, so an object is an
  association list; its keys are distinct. Numbers are opaque to the module and are
  integers here.
\<close>

datatype json =
    JNull
  | JBool bool
  | JNum int
  | JStr string
  | JArr "json list"
  | JObj "(string \<times> json) list"

text \<open>
  The exceptions that can leave the module. \<open>Exception m\<close> is the one the module raises
  itself, carrying the value of the server's \<^verbatim>\<open>message\<close> field; the others are
  raised by Python or by the libraries.
\<close>

datatype py_error =
    Exception json
  | KeyError string
  | IndexError
  | TypeError
  | AttributeError
  | ValueError
  | JSONDecodeError
  | ConnectionError

text \<open>\<^verbatim>\<open>x[k]\<close> for a string key: only a dict can be subscripted with a string.\<close>

fun getitem :: "json \<Rightarrow> string \<Rightarrow> py_error + json" where
  "getitem (JObj d) k = (case map_of d k of None \<Rightarrow> Inl (KeyError k) | Some v \<Rightarrow> Inr v)"
| "getitem _ k = Inl TypeError"

text \<open>\<^verbatim>\<open>d.update(other)\<close>: each key is overwritten in place or appended at the end.\<close>

definition dict_update :: "(string \<times> json) list \<Rightarrow> (string \<times> json) list \<Rightarrow> (string \<times> json) list" where
  "dict_update d other = fold (\<lambda>(k, v) m. AList.update k v m) other d"

text \<open>
  \<^verbatim>\<open>body['spec'].update(**kw)\<close>: the spec is an object inside \<open>body\<close> and is changed in
  place, so the updated body is returned.
\<close>

definition spec_update :: "json \<Rightarrow> (string \<times> json) list \<Rightarrow> py_error + json" where
  "spec_update body kw =
     (case body of
        JObj b \<Rightarrow>
          (case map_of b ''spec'' of
             None \<Rightarrow> Inl (KeyError ''spec'')
           | Some (JObj spec) \<Rightarrow> Inr (JObj (AList.update ''spec'' (JObj (dict_update spec kw)) b))
           | Some _ \<Rightarrow> Inl AttributeError)
      | _ \<Rightarrow> Inl TypeError)"

text \<open>Truth value of a JSON value, as \<^verbatim>\<open>while has_more\<close> tests it.\<close>

fun truthy :: "json \<Rightarrow> bool" where
  "truthy JNull = False"
| "truthy (JBool b) = b"
| "truthy (JNum n) = (n \<noteq> 0)"
| "truthy (JStr s) = (s \<noteq> [])"
| "truthy (JArr xs) = (xs \<noteq> [])"
| "truthy (JObj d) = (d \<noteq> [])"

text \<open>\<^verbatim>\<open>len(x)\<close> and \<^verbatim>\<open>x[a:b]\<close> with \<open>0 \<le> a \<le> b\<close>.\<close>

fun py_len :: "json \<Rightarrow> py_error + nat" where
  "py_len (JArr xs) = Inr (length xs)"
| "py_len (JStr s) = Inr (length s)"
| "py_len (JObj d) = Inr (length d)"
| "py_len _ = Inl TypeError"

fun py_slice :: "json \<Rightarrow> nat \<Rightarrow> nat \<Rightarrow> py_error + json" where
  "py_slice (JArr xs) a b = Inr (JArr (take (b - a) (drop a xs)))"
| "py_slice (JStr s) a b = Inr (JStr (take (b - a) (drop a s)))"
| "py_slice _ a b = Inl TypeError"

text \<open>\<^verbatim>\<open>range(0, n, k)\<close> for \<open>k > 0\<close>.\<close>

definition range_step :: "nat \<Rightarrow> nat \<Rightarrow> nat list" where
  "range_step n k = map (\<lambda>i. i * k) [0..<(n + k - 1) div k]"

text \<open>\<^verbatim>\<open>sub in s\<close> on strings.\<close>

fun contains :: "string \<Rightarrow> string \<Rightarrow> bool" where
  "contains sub [] = (sub = [])"
| "contains sub (c # cs) = (prefix sub (c # cs) \<or> contains sub cs)"

text \<open>
  \<^verbatim>\<open>s.replace(old, new)\<close>: one scan from the left; each occurrence found is replaced and
  the scan goes on after it.
\<close>

function replace_scan :: "string \<Rightarrow> string \<Rightarrow> string \<Rightarrow> string" where
  "replace_scan old new [] = []"
| "replace_scan old new (c # cs) =
     (if old \<noteq> [] \<and> prefix old (c # cs)
      then new @ replace_scan old new (drop (length old - 1) cs)
      else c # replace_scan old new cs)"
  by pat_completeness auto
termination
  by (relation "measure (\<lambda>(old, new, s). length s)") auto

definition str_replace :: "string \<Rightarrow> string \<Rightarrow> string \<Rightarrow> string" where
  "str_replace old new s =
     (if old = [] then new @ concat (map (\<lambda>c. c # new) s) else replace_scan old new s)"

subsection \<open>The transport\<close>

text \<open>
  A request is the URL and the JSON body (the two headers are constants). The server
  answers the \<open>n\<close>-th request of a run with a status code and a body, which is \<open>None\<close>
  when it is not JSON, or the HTTP library raises. The requests sent so far are kept in a
  log, which every operation takes and returns.
\<close>

record request =
  url :: string
  payload :: json

record response =
  status_code :: int
  content :: "json option"

type_synonym server = "nat \<Rightarrow> request \<Rightarrow> py_error + response"

type_synonym 'a io = "(py_error + 'a) \<times> request list"

text \<open>\<^verbatim>\<open>response.json()\<close>\<close>

definition json_body :: "response \<Rightarrow> py_error + json" where
  "json_body r = (case content r of None \<Rightarrow> Inl JSONDecodeError | Some j \<Rightarrow> Inr j)"

text \<open>Lines 23 to 26: what \<^verbatim>\<open>read_data_json\<close> does with the response.\<close>

definition check_response :: "response \<Rightarrow> py_error + json" where
  "check_response r =
     (if status_code r \<noteq> 200 then
        (case json_body r of
           Inl e \<Rightarrow> Inl e
         | Inr j \<Rightarrow> (case getitem j ''message'' of Inl e \<Rightarrow> Inl e | Inr m \<Rightarrow> Inl (Exception m)))
      else json_body r)"

definition mk_request :: "string \<Rightarrow> string \<Rightarrow> json \<Rightarrow> request" where
  "mk_request typename api body =
     \<lparr>url = ''https://api.c3.ai/covid/api/1/'' @ typename @ ''/'' @ api, payload = body\<rparr>"

text \<open>The answer to the \<open>n\<close>-th request of a run, as \<^verbatim>\<open>read_data_json\<close> returns it.\<close>

definition transport :: "server \<Rightarrow> nat \<Rightarrow> request \<Rightarrow> py_error + json" where
  "transport srv n req = (case srv n req of Inl e \<Rightarrow> Inl e | Inr r \<Rightarrow> check_response r)"

definition read_data_json :: "server \<Rightarrow> string \<Rightarrow> string \<Rightarrow> json \<Rightarrow> request list \<Rightarrow> json io" where
  "read_data_json srv typename api body log =
     (let req = mk_request typename api body
      in (transport srv (length log) req, log @ [req]))"

subsection \<open>Data frames\<close>

text \<open>
  A data frame has row labels (its index) and named columns, each with one cell per row.
  A cell holds a JSON value, \<open>NaN\<close> (a missing value) or a converted date. Every frame the
  module builds has non-decreasing row labels: \<^verbatim>\<open>json_normalize\<close> numbers the rows
  from 0 and \<^verbatim>\<open>explode\<close> repeats a label in place.
\<close>

datatype cell = NaN | Val json | Datetime int

record frame =
  index :: "nat list"
  series :: "(string \<times> cell list) list"

definition columns :: "frame \<Rightarrow> string list" where
  "columns df = map fst (series df)"

definition nrows :: "frame \<Rightarrow> nat" where
  "nrows df = length (index df)"

text \<open>The cells of row \<open>i\<close> (by position), one per column.\<close>

definition row :: "frame \<Rightarrow> nat \<Rightarrow> cell list" where
  "row df i = map (\<lambda>(c, vals). vals ! i) (series df)"

text \<open>\<^verbatim>\<open>pd.DataFrame()\<close>\<close>

definition DataFrame :: frame where
  "DataFrame = \<lparr>index = [], series = []\<rparr>"

text \<open>The elements of a list in the order of their first occurrence.\<close>

definition unique :: "'a list \<Rightarrow> 'a list" where
  "unique xs = rev (remdups (rev xs))"

text \<open>Running a function that may raise over a list, stopping at the first exception.\<close>

fun map_raise :: "('a \<Rightarrow> py_error + 'b) \<Rightarrow> 'a list \<Rightarrow> py_error + 'b list" where
  "map_raise f [] = Inr []"
| "map_raise f (x # xs) =
     (case f x of
        Inl e \<Rightarrow> Inl e
      | Inr y \<Rightarrow> (case map_raise f xs of Inl e \<Rightarrow> Inl e | Inr ys \<Rightarrow> Inr (y # ys)))"

text \<open>
  \<^verbatim>\<open>nested_to_record\<close>, which \<^verbatim>\<open>json_normalize\<close> applies to each record: the keys of
  a nested object are prefixed with the path to it, joined by a dot. At the top level a
  value that is not an object stays where it is and a nested object is taken out, its
  flattened keys going to the end; below the top level every key is taken out and put
  back under its new name. Lists are left as they are. \<open>new_d\<close> is the copy of the record
  that is being rewritten while the items of the original are visited.
\<close>

fun flatten_items :: "string \<Rightarrow> bool \<Rightarrow> (string \<times> json) list \<Rightarrow> (string \<times> json) list \<Rightarrow> (string \<times> json) list" where
  "flatten_items path toplevel [] new_d = new_d"
| "flatten_items path toplevel ((k, JObj sub) # rest) new_d =
     flatten_items path toplevel rest
       (dict_update (AList.delete k new_d)
          (flatten_items (if toplevel then k else path @ ''.'' @ k) False sub sub))"
| "flatten_items path toplevel ((k, v) # rest) new_d =
     flatten_items path toplevel rest
       (if toplevel then new_d else AList.update (path @ ''.'' @ k) v (AList.delete k new_d))"

definition nested_to_record :: "(string \<times> json) list \<Rightarrow> (string \<times> json) list" where
  "nested_to_record d = flatten_items [] True d d"

text \<open>
  The frame of a list of flat records: one row per record, numbered from 0; the columns
  are the keys in the order of their first occurrence; a key a record lacks gives \<open>NaN\<close>.
\<close>

definition from_records :: "(string \<times> json) list list \<Rightarrow> frame" where
  "from_records rs =
     \<lparr>index = [0..<length rs],
      series = map (\<lambda>c. (c, map (\<lambda>r. case map_of r c of None \<Rightarrow> NaN | Some v \<Rightarrow> Val v) rs))
                 (unique (concat (map (map fst) rs)))\<rparr>"

fun as_record :: "json \<Rightarrow> py_error + (string \<times> json) list" where
  "as_record (JObj d) = Inr (nested_to_record d)"
| "as_record _ = Inl AttributeError"

text \<open>
  \<^verbatim>\<open>pd.json_normalize(data)\<close>: an empty list gives the empty frame, an object is a list
  of one record, a list must hold objects only; anything else raises (the class of the
  exception depends on the library's version, nothing below depends on it).
\<close>

fun json_normalize :: "json \<Rightarrow> py_error + frame" where
  "json_normalize (JArr []) = Inr DataFrame"
| "json_normalize (JArr ds) =
     (case map_raise as_record ds of Inl e \<Rightarrow> Inl e | Inr rs \<Rightarrow> Inr (from_records rs))"
| "json_normalize (JObj d) = Inr (from_records [nested_to_record d])"
| "json_normalize (JStr s) = Inl AttributeError"
| "json_normalize _ = Inl TypeError"

text \<open>
  \<^verbatim>\<open>Series.explode\<close>: a cell holding a list becomes one cell per element, an empty list
  becomes one \<open>NaN\<close>, any other cell stays; the row label is repeated for each new cell.
  (\<^verbatim>\<open>json_normalize\<close> leaves no object in a cell.)
\<close>

fun explode_cell :: "cell \<Rightarrow> cell list" where
  "explode_cell (Val (JArr [])) = [NaN]"
| "explode_cell (Val (JArr (x # xs))) = map Val (x # xs)"
| "explode_cell c = [c]"

definition explode :: "nat list \<Rightarrow> cell list \<Rightarrow> nat list \<times> cell list" where
  "explode idx vals =
     (concat (map (\<lambda>(i, c). replicate (length (explode_cell c)) i) (zip idx vals)),
      concat (map explode_cell vals))"

text \<open>
  Aligning row labels. The union of two indexes is the first one when they are equal or
  the other is empty; otherwise each label is taken as often as it occurs in the index
  where it occurs most, in increasing order. Columns can be moved to another index only
  when their own labels are distinct: each new row takes the cell of its label, or \<open>NaN\<close>;
  with repeated labels the library raises, unless the index is the same already.
\<close>

definition index_union :: "nat list \<Rightarrow> nat list \<Rightarrow> nat list" where
  "index_union a b =
     (if a = b \<or> b = [] then a
      else if a = [] then b
      else concat (map (\<lambda>l. replicate (max (count_list a l) (count_list b l)) l)
                     (sorted_list_of_set (set a \<union> set b))))"

definition reindex :: "nat list \<Rightarrow> nat list \<Rightarrow> (string \<times> cell list) list \<Rightarrow> py_error + (string \<times> cell list) list" where
  "reindex target idx cols =
     (if idx = target then Inr cols
      else if distinct idx then
        Inr (map (\<lambda>(c, vals). (c, map (\<lambda>l. case map_of (zip idx vals) l of None \<Rightarrow> NaN | Some v \<Rightarrow> v) target)) cols)
      else Inl ValueError)"

text \<open>
  \<^verbatim>\<open>df.apply(pd.Series.explode)\<close>: every column is exploded on its own and the results
  are put together again on the union of their indexes. A frame with no column is
  returned as it is.
\<close>

definition apply_explode :: "frame \<Rightarrow> py_error + frame" where
  "apply_explode df =
     (case map (\<lambda>(c, vals). (c, explode (index df) vals)) (series df) of
        [] \<Rightarrow> Inr df
      | (c0, (idx0, vals0)) # rest \<Rightarrow>
          (let u = foldl index_union idx0 (map (\<lambda>(c, (idx, vals)). idx) rest)
           in case map_raise (\<lambda>(c, (idx, vals)). reindex u idx [(c, vals)]) ((c0, (idx0, vals0)) # rest) of
                Inl e \<Rightarrow> Inl e
              | Inr cols \<Rightarrow> Inr \<lparr>index = u, series = concat cols\<rparr>))"

text \<open>\<^verbatim>\<open>pd.concat([a, b], axis = 1)\<close>: side by side, on the union of the two indexes.\<close>

definition concat_columns :: "frame \<Rightarrow> frame \<Rightarrow> py_error + frame" where
  "concat_columns a b =
     (let u = index_union (index a) (index b)
      in case reindex u (index a) (series a) of
           Inl e \<Rightarrow> Inl e
         | Inr ca \<Rightarrow>
             (case reindex u (index b) (series b) of
                Inl e \<Rightarrow> Inl e
              | Inr cb \<Rightarrow> Inr \<lparr>index = u, series = ca @ cb\<rparr>))"

text \<open>
  \<^verbatim>\<open>df.append(other)\<close>: the rows of \<open>other\<close> under the rows of \<open>df\<close>; the columns are
  those of both, a column one of them lacks is filled with \<open>NaN\<close>.
\<close>

definition column_or_nan :: "frame \<Rightarrow> string \<Rightarrow> cell list" where
  "column_or_nan df c =
     (case map_of (series df) c of None \<Rightarrow> replicate (nrows df) NaN | Some vals \<Rightarrow> vals)"

definition append :: "frame \<Rightarrow> frame \<Rightarrow> frame" where
  "append df other =
     \<lparr>index = index df @ index other,
      series = map (\<lambda>c. (c, column_or_nan df c @ column_or_nan other c))
                 (unique (columns df @ columns other))\<rparr>"

text \<open>\<^verbatim>\<open>df.drop(columns = labels)\<close>: a label that is no column raises.\<close>

definition drop_columns :: "string list \<Rightarrow> frame \<Rightarrow> py_error + frame" where
  "drop_columns labels df =
     (case filter (\<lambda>l. l \<notin> set (columns df)) labels of
        [] \<Rightarrow> Inr (df\<lparr>series := filter (\<lambda>(c, vals). c \<notin> set labels) (series df)\<rparr>)
      | l # _ \<Rightarrow> Inl (KeyError l))"

text \<open>
  \<^verbatim>\<open>df.filter(regex = 'a|b|c')\<close> for literal alternatives: the columns whose name
  contains one of them.
\<close>

definition filter_regex :: "string list \<Rightarrow> frame \<Rightarrow> frame" where
  "filter_regex alts df =
     df\<lparr>series := filter (\<lambda>(c, vals). \<exists>a \<in> set alts. contains a c) (series df)\<rparr>"

text \<open>
  \<^verbatim>\<open>df.filter(items = items)\<close>: the columns are reindexed to the items that are column
  names, in the order of the items. Column names that occur twice cannot be reindexed,
  unless nothing changes or nothing is asked for.
\<close>

definition filter_items :: "string list \<Rightarrow> frame \<Rightarrow> py_error + frame" where
  "filter_items items df =
     (let target = filter (\<lambda>r. r \<in> set (columns df)) items
      in if target = columns df then Inr df
         else if \<not> distinct (columns df) \<and> target \<noteq> [] then Inl ValueError
         else Inr (df\<lparr>series := concat (map (\<lambda>r. filter (\<lambda>(c, vals). c = r) (series df)) target)\<rparr>))"

text \<open>\<^verbatim>\<open>df.rename(columns = f)\<close>\<close>

definition rename_columns :: "(string \<Rightarrow> string) \<Rightarrow> frame \<Rightarrow> frame" where
  "rename_columns f df = df\<lparr>series := map (\<lambda>(c, vals). (f c, vals)) (series df)\<rparr>"

text \<open>
  \<^verbatim>\<open>df[c]\<close> as \<^verbatim>\<open>pd.to_datetime\<close> takes it: a missing column raises, and so does
  the conversion of the frame that a name occurring twice selects.
\<close>

definition get_column :: "frame \<Rightarrow> string \<Rightarrow> py_error + cell list" where
  "get_column df c =
     (case filter (\<lambda>(c', vals). c' = c) (series df) of
        [] \<Rightarrow> Inl (KeyError c)
      | [(c', vals)] \<Rightarrow> Inr vals
      | _ \<Rightarrow> Inl ValueError)"

text \<open>\<^verbatim>\<open>df[c] = vals\<close> for a column that exists.\<close>

definition set_column :: "frame \<Rightarrow> string \<Rightarrow> cell list \<Rightarrow> frame" where
  "set_column df c vals =
     df\<lparr>series := map (\<lambda>(c', vals'). if c' = c then (c', vals) else (c', vals')) (series df)\<rparr>"

subsection \<open>The operations of the module\<close>

text \<open>
  The body of a \<^verbatim>\<open>for\<close> loop is run for each element in turn, on the state of the loop
  and the log; the first exception ends the loop.
\<close>

fun for_each :: "('i \<Rightarrow> 's \<Rightarrow> request list \<Rightarrow> 's io) \<Rightarrow> 'i list \<Rightarrow> 's \<Rightarrow> request list \<Rightarrow> 's io" where
  "for_each step [] s log = (Inr s, log)"
| "for_each step (i # rest) s log =
     (case step i s log of
        (Inl e, log') \<Rightarrow> (Inl e, log')
      | (Inr s', log') \<Rightarrow> for_each step rest s' log')"

text \<open>\<^verbatim>\<open>limit = 2000\<close> in \<^verbatim>\<open>fetch\<close>.\<close>

definition limit :: nat where
  "limit = 2000"

text \<open>
  Lines 46 to 50, one pass through the body of the \<^verbatim>\<open>while\<close> loop of \<^verbatim>\<open>fetch\<close>: the
  result is the body with its spec updated, the frame with the new rows, and
  \<^verbatim>\<open>has_more\<close>.
\<close>

definition fetch_page :: "server \<Rightarrow> string \<Rightarrow> json \<Rightarrow> nat \<Rightarrow> frame \<Rightarrow> request list \<Rightarrow> (json \<times> frame \<times> json) io" where
  "fetch_page srv typename body offset df log =
     (case spec_update body [(''limit'', JNum (int limit)), (''offset'', JNum (int offset))] of
        Inl e \<Rightarrow> (Inl e, log)
      | Inr body' \<Rightarrow>
          (case read_data_json srv typename ''fetch'' body' log of
             (Inl e, log') \<Rightarrow> (Inl e, log')
           | (Inr response, log') \<Rightarrow>
               (case getitem response ''objs'' of
                  Inl e \<Rightarrow> (Inl e, log')
                | Inr objs \<Rightarrow>
                    (case json_normalize objs of
                       Inl e \<Rightarrow> (Inl e, log')
                     | Inr new_df \<Rightarrow>
                         (case getitem response ''hasMore'' of
                            Inl e \<Rightarrow> (Inl e, log')
                          | Inr has_more \<Rightarrow> (Inr (body', append df new_df, has_more), log'))))))"

text \<open>
  Lines 45 to 51, the \<^verbatim>\<open>while\<close> loop. It runs for as long as the server says there is
  more, so it is a partial function: \<open>None\<close> is a loop that never ends.
\<close>

partial_function (option) fetch_loop :: "server \<Rightarrow> string \<Rightarrow> json \<Rightarrow> nat \<Rightarrow> frame \<Rightarrow> request list \<Rightarrow> frame io option" where
  "fetch_loop srv typename body offset df log =
     (case fetch_page srv typename body offset df log of
        (Inl e, log') \<Rightarrow> Some (Inl e, log')
      | (Inr (body', df', has_more), log') \<Rightarrow>
          if truthy has_more then fetch_loop srv typename body' (offset + limit) df' log'
          else Some (Inr df', log'))"

declare fetch_loop.simps [code]

text \<open>Lines 54 and 55, the single request of \<^verbatim>\<open>fetch\<close>.\<close>

definition fetch_once :: "server \<Rightarrow> string \<Rightarrow> json \<Rightarrow> request list \<Rightarrow> frame io" where
  "fetch_once srv typename body log =
     (case read_data_json srv typename ''fetch'' body log of
        (Inl e, log') \<Rightarrow> (Inl e, log')
      | (Inr response, log') \<Rightarrow>
          (case getitem response ''objs'' of
             Inl e \<Rightarrow> (Inl e, log')
           | Inr objs \<Rightarrow> (json_normalize objs, log')))"

text \<open>Line 58.\<close>

definition drop_meta :: "frame \<Rightarrow> py_error + frame" where
  "drop_meta df =
     drop_columns (filter (\<lambda>c. contains ''meta'' c \<or> contains ''version'' c) (columns df)) df"

text \<open>Lines 39 to 55: the frame \<^verbatim>\<open>fetch\<close> assembles.\<close>

definition fetch_frame :: "server \<Rightarrow> string \<Rightarrow> json \<Rightarrow> bool \<Rightarrow> request list \<Rightarrow> frame io option" where
  "fetch_frame srv typename body get_all log =
     (if get_all then fetch_loop srv typename body 0 DataFrame log
      else Some (fetch_once srv typename body log))"

definition fetch :: "server \<Rightarrow> string \<Rightarrow> json \<Rightarrow> bool \<Rightarrow> bool \<Rightarrow> request list \<Rightarrow> frame io option" where
  "fetch srv typename body get_all remove_meta log =
     (case fetch_frame srv typename body get_all log of
        None \<Rightarrow> None
      | Some (Inl e, log') \<Rightarrow> Some (Inl e, log')
      | Some (Inr df, log') \<Rightarrow> Some (if remove_meta then drop_meta df else Inr df, log'))"

text \<open>
  Lines 98 to 101 of \<^verbatim>\<open>evalmetrics\<close>, which are lines 121 to 124 of
  \<^verbatim>\<open>getprojectionhistory\<close>. \<^verbatim>\<open>pd.to_datetime\<close> is a parameter: it converts a cell or
  raises.
\<close>

definition only_keep_one_date_column :: "(cell \<Rightarrow> py_error + cell) \<Rightarrow> frame \<Rightarrow> py_error + frame" where
  "only_keep_one_date_column to_datetime df =
     (let date_cols = filter (contains ''dates'') (columns df);
          keep_cols = take 1 date_cols @ filter (\<lambda>col. \<not> contains ''dates'' col) (columns df)
      in case filter_items keep_cols df of
           Inl e \<Rightarrow> Inl e
         | Inr df1 \<Rightarrow>
             (case date_cols of
                [] \<Rightarrow> Inl IndexError
              | d # _ \<Rightarrow>
                  (let df2 = rename_columns (\<lambda>c. if c = d then ''dates'' else c) df1
                   in case get_column df2 ''dates'' of
                        Inl e \<Rightarrow> Inl e
                      | Inr dates \<Rightarrow>
                          (case map_raise to_datetime dates of
                             Inl e \<Rightarrow> Inl e
                           | Inr dates' \<Rightarrow> Inr (set_column df2 ''dates'' dates')))))"

text \<open>
  Lines 79 to 86, the body of the inner loop of \<^verbatim>\<open>evalmetrics\<close>. \<open>ids\<close> and
  \<open>expressions\<close> are the lists read from the spec before the loops; the state of the
  loops is the body and the frame.
\<close>

definition evalmetrics_batch :: "server \<Rightarrow> string \<Rightarrow> json \<Rightarrow> json \<Rightarrow> nat \<Rightarrow> nat \<Rightarrow> json \<times> frame \<Rightarrow> request list \<Rightarrow> (json \<times> frame) io" where
  "evalmetrics_batch srv typename ids expressions ids_start expressions_start st log =
     (case py_slice ids ids_start (ids_start + 10) of
        Inl e \<Rightarrow> (Inl e, log)
      | Inr ids_batch \<Rightarrow>
     (case py_slice expressions expressions_start (expressions_start + 4) of
        Inl e \<Rightarrow> (Inl e, log)
      | Inr expressions_batch \<Rightarrow>
     (case spec_update (fst st) [(''ids'', ids_batch), (''expressions'', expressions_batch)] of
        Inl e \<Rightarrow> (Inl e, log)
      | Inr body' \<Rightarrow>
     (case read_data_json srv typename ''evalmetrics'' body' log of
        (Inl e, log') \<Rightarrow> (Inl e, log')
      | (Inr response, log') \<Rightarrow>
     (case getitem response ''result'' of
        Inl e \<Rightarrow> (Inl e, log')
      | Inr result \<Rightarrow>
     (case json_normalize result of
        Inl e \<Rightarrow> (Inl e, log')
      | Inr new_df \<Rightarrow>
     (case apply_explode new_df of
        Inl e \<Rightarrow> (Inl e, log')
      | Inr new_df' \<Rightarrow>
     (case concat_columns (snd st) new_df' of
        Inl e \<Rightarrow> (Inl e, log')
      | Inr df' \<Rightarrow> (Inr (body', df'), log')))))))))"

text \<open>Lines 77 to 86, the two loops.\<close>

definition evalmetrics_loops :: "server \<Rightarrow> string \<Rightarrow> json \<Rightarrow> json \<Rightarrow> nat \<Rightarrow> json \<times> frame \<Rightarrow> request list \<Rightarrow> (json \<times> frame) io" where
  "evalmetrics_loops srv typename ids expressions n st log =
     for_each
       (\<lambda>ids_start st log.
          case py_len expressions of
            Inl e \<Rightarrow> (Inl e, log)
          | Inr m \<Rightarrow>
              for_each (evalmetrics_batch srv typename ids expressions ids_start)
                (range_step m 4) st log)
       (range_step n 10) st log"

text \<open>Lines 72 to 91: the frame \<^verbatim>\<open>evalmetrics\<close> assembles.\<close>

definition evalmetrics_frame :: "server \<Rightarrow> string \<Rightarrow> json \<Rightarrow> bool \<Rightarrow> request list \<Rightarrow> frame io" where
  "evalmetrics_frame srv typename body get_all log =
     (if get_all then
        (case getitem body ''spec'' of
           Inl e \<Rightarrow> (Inl e, log)
         | Inr spec \<Rightarrow>
        (case getitem spec ''expressions'' of
           Inl e \<Rightarrow> (Inl e, log)
         | Inr expressions \<Rightarrow>
        (case getitem spec ''ids'' of
           Inl e \<Rightarrow> (Inl e, log)
         | Inr ids \<Rightarrow>
        (case py_len ids of
           Inl e \<Rightarrow> (Inl e, log)
         | Inr n \<Rightarrow>
        (case evalmetrics_loops srv typename ids expressions n (body, DataFrame) log of
           (Inl e, log') \<Rightarrow> (Inl e, log')
         | (Inr st, log') \<Rightarrow> (Inr (snd st), log'))))))
      else
        (case read_data_json srv typename ''evalmetrics'' body log of
           (Inl e, log') \<Rightarrow> (Inl e, log')
         | (Inr response, log') \<Rightarrow>
             (case getitem response ''result'' of
                Inl e \<Rightarrow> (Inl e, log')
              | Inr result \<Rightarrow>
                  (case json_normalize result of
                     Inl e \<Rightarrow> (Inl e, log')
                   | Inr df \<Rightarrow> (apply_explode df, log')))))"

definition evalmetrics :: "(cell \<Rightarrow> py_error + cell) \<Rightarrow> server \<Rightarrow> string \<Rightarrow> json \<Rightarrow> bool \<Rightarrow> bool \<Rightarrow> request list \<Rightarrow> frame io" where
  "evalmetrics to_datetime srv typename body get_all remove_meta log =
     (case evalmetrics_frame srv typename body get_all log of
        (Inl e, log') \<Rightarrow> (Inl e, log')
      | (Inr df, log') \<Rightarrow>
          (only_keep_one_date_column to_datetime
             (if remove_meta then filter_regex [''dates'', ''data'', ''missing''] df else df),
           log'))"

text \<open>Lines 112 to 114: the frame \<^verbatim>\<open>getprojectionhistory\<close> assembles.\<close>

definition getprojectionhistory_frame :: "server \<Rightarrow> json \<Rightarrow> request list \<Rightarrow> frame io" where
  "getprojectionhistory_frame srv body log =
     (case read_data_json srv ''outbreaklocation'' ''getprojectionhistory'' body log of
        (Inl e, log') \<Rightarrow> (Inl e, log')
      | (Inr response, log') \<Rightarrow>
          (case json_normalize response of
             Inl e \<Rightarrow> (Inl e, log')
           | Inr df \<Rightarrow> (apply_explode df, log')))"

text \<open>Lines 117 to 124: the frame before its columns are renamed.\<close>

definition getprojectionhistory_dates :: "(cell \<Rightarrow> py_error + cell) \<Rightarrow> bool \<Rightarrow> frame \<Rightarrow> py_error + frame" where
  "getprojectionhistory_dates to_datetime remove_meta df =
     only_keep_one_date_column to_datetime
       (if remove_meta then filter_regex [''dates'', ''data'', ''missing'', ''expr''] df else df)"

definition getprojectionhistory :: "(cell \<Rightarrow> py_error + cell) \<Rightarrow> server \<Rightarrow> json \<Rightarrow> bool \<Rightarrow> request list \<Rightarrow> frame io" where
  "getprojectionhistory to_datetime srv body remove_meta log =
     (case getprojectionhistory_frame srv body log of
        (Inl e, log') \<Rightarrow> (Inl e, log')
      | (Inr df, log') \<Rightarrow>
          (case getprojectionhistory_dates to_datetime remove_meta df of
             Inl e \<Rightarrow> (Inl e, log')
           | Inr df' \<Rightarrow> (Inr (rename_columns (\<lambda>x. str_replace ''.value'' '''' x) df'), log')))"

subsection \<open>Batches, as the specification words them\<close>

text \<open>
  The partition of a list into consecutive batches of at most \<open>n\<close> elements, in the
  order of the list. It is not part of the module: the loops of \<^verbatim>\<open>evalmetrics\<close> are
  compared with it.
\<close>

function batches :: "nat \<Rightarrow> 'a list \<Rightarrow> 'a list list" where
  "batches n xs = (if n = 0 \<or> xs = [] then [] else take n xs # batches n (drop n xs))"
  by pat_completeness auto
termination
  by (relation "measure (\<lambda>(n, xs). length xs)") auto

declare batches.simps [simp del]

subsection \<open>Runs that stop at the first failed call\<close>

text \<open>
  A property of the outcome of an operation started with the log \<open>log\<close>: the requests
  it sent come after those of \<open>log\<close>, and if the server's answer to any of them makes
  \<^verbatim>\<open>read_data_json\<close> raise, the outcome is that exception.
\<close>

definition aborts_on_failure :: "server \<Rightarrow> request list \<Rightarrow> 'a io \<Rightarrow> bool" where
  "aborts_on_failure srv log out =
     (prefix log (snd out) \<and>
      (\<forall>i e. length log \<le> i \<and> i < length (snd out) \<and> transport srv i (snd out ! i) = Inl e
             \<longrightarrow> fst out = Inl e))"

subsection \<open>Servers and conversions used in the examples\<close>

text \<open>A page of one record with metadata and version fields, and no further page.\<close>

definition records_server :: server where
  "records_server n req =
     Inr \<lparr>status_code = 200,
          content = Some (JObj [(''objs'', JArr [JObj [(''id'', JStr ''a''), (''meta.source'', JStr ''s''),
                                   (''version.tag'', JNum 1), (''value'', JNum 3)]]),
                                (''hasMore'', JBool False)])\<rparr>"

text \<open>Two expressions over two dates; the second has dates only.\<close>

definition timeseries_server :: server where
  "timeseries_server n req =
     Inr \<lparr>status_code = 200,
          content = Some (JObj [(''result'',
            JObj [(''expr1'', JObj [(''dates'', JArr [JStr ''2020-01-01'', JStr ''2020-01-02'']),
                                   (''data'', JArr [JNum 1, JNum 2])]),
                  (''expr2'', JObj [(''dates'', JArr [JStr ''2020-01-01'', JStr ''2020-01-02''])])])])\<rparr>"

text \<open>A projection history with a doubly nested value.\<close>

definition projection_server :: server where
  "projection_server n req =
     Inr \<lparr>status_code = 200,
          content = Some (JObj [(''dates'', JArr [JStr ''2020-01-01'', JStr ''2020-01-02'']),
                                (''projection'', JObj [(''value'', JObj [(''value'', JArr [JNum 1, JNum 2])])])])\<rparr>"


text \<open>A first answer that serves every operation, then HTTP 400 with a message.\<close>

definition failing_server :: server where
  "failing_server n req =
     (if n = 0 then
        Inr \<lparr>status_code = 200,
             content = Some (JObj [(''objs'', JArr [JObj [(''id'', JStr ''a'')]]),
                                   (''hasMore'', JBool True),
                                   (''result'', JObj [(''expr1'', JObj [(''dates'', JArr [JStr ''2020-01-01'']),
                                                                       (''data'', JArr [JNum 1])])])])\<rparr>
      else Inr \<lparr>status_code = 400, content = Some (JObj [(''message'', JStr ''bad spec'')])\<rparr>)"

text \<open>Three pages of two, one and no record; the last one says there is no more.\<close>

definition example_page :: "nat \<Rightarrow> json" where
  "example_page n =
     JObj [(''objs'', JArr (if n = 0 then [JObj [(''id'', JStr ''a'')], JObj [(''id'', JStr ''b'')]]
                            else if n = 1 then [JObj [(''id'', JStr ''c'')]]
                            else [])),
           (''hasMore'', JBool (n < 2))]"

definition paging_server :: server where
  "paging_server n req = Inr \<lparr>status_code = 200, content = Some (example_page n)\<rparr>"

text \<open>A result of one column and one row, whatever is asked.\<close>

definition unit_server :: server where
  "unit_server n req =
     Inr \<lparr>status_code = 200, content = Some (JObj [(''result'', JObj [(''v'', JArr [JNum 1])])])\<rparr>"

text \<open>A spec of 25 ids and 5 expressions.\<close>

definition example_ids :: "json list" where
  "example_ids = map JNum [1, 2, 3, 4, 5, 6, 7, 8, 9, 10, 11, 12, 13, 14, 15, 16, 17, 18, 19, 20,
                           21, 22, 23, 24, 25]"

definition example_expressions :: "json list" where
  "example_expressions = map JStr [''e1'', ''e2'', ''e3'', ''e4'', ''e5'']"

section \<open>Properties\<close>

subsection \<open>Substrings and replacement\<close>

lemma contains_iff: "contains sub s \<longleftrightarrow> (\<exists>a b. s = a @ sub @ b)"
proof (induction s)
  case Nil
  then show ?case by auto
next
  case (Cons c cs)
  show ?case
  proof
    assume "contains sub (c # cs)"
    then consider "prefix sub (c # cs)" | "contains sub cs" by auto
    then show "\<exists>a b. c # cs = a @ sub @ b"
    proof cases
      case 1
      then obtain b where "c # cs = sub @ b" by (auto simp: prefix_def)
      then have "c # cs = [] @ sub @ b" by simp
      then show ?thesis by blast
    next
      case 2
      with Cons.IH obtain a b where "cs = a @ sub @ b" by blast
      then have "c # cs = (c # a) @ sub @ b" by simp
      then show ?thesis by blast
    qed
  next
    assume "\<exists>a b. c # cs = a @ sub @ b"
    then obtain a b where ab: "c # cs = a @ sub @ b" by blast
    show "contains sub (c # cs)"
    proof (cases a)
      case Nil
      with ab have "prefix sub (c # cs)" by (simp add: prefix_def)
      then show ?thesis by simp
    next
      case (Cons x a')
      with ab have "cs = a' @ sub @ b" by simp
      with Cons.IH have "contains sub cs" by blast
      then show ?thesis by simp
    qed
  qed
qed

lemma prefix_append_cases:
  "prefix (x # xs) (a @ r) \<longleftrightarrow>
     (a = [] \<and> prefix (x # xs) r) \<or> (\<exists>a'. a = x # a' \<and> prefix xs (a' @ r))"
  by (cases a) auto

lemma value_not_prefix:
  assumes "\<not> contains ''.value'' a" and "a \<noteq> []"
  shows "\<not> prefix ''.value'' (a @ ''.value'' @ b)"
proof
  assume p: "prefix ''.value'' (a @ ''.value'' @ b)"
  then have "a = [] \<or> (\<exists>a'. a = ''.value'' @ a')"
    by (simp add: prefix_append_cases) auto
  with assms(2) obtain a' where "a = ''.value'' @ a'" by blast
  then have "contains ''.value'' a" by simp
  with assms(1) show False by simp
qed

lemma replace_scan_skip:
  "\<not> prefix old (c # cs) \<Longrightarrow> replace_scan old new (c # cs) = c # replace_scan old new cs"
  by simp

lemma replace_scan_hit:
  "replace_scan (x # xs) new ((x # xs) @ b) = new @ replace_scan (x # xs) new b"
  by simp

lemma replace_scan_value:
  "\<not> contains ''.value'' a \<Longrightarrow>
   replace_scan ''.value'' new (a @ ''.value'' @ b) = a @ new @ replace_scan ''.value'' new b"
proof (induction a)
  case Nil
  show ?case using replace_scan_hit [of "CHR ''.''" "''value''" new b] by simp
next
  case (Cons c a)
  from Cons.prems have n: "\<not> contains ''.value'' a" by simp
  have "\<not> prefix ''.value'' (c # (a @ ''.value'' @ b))"
    using value_not_prefix [OF Cons.prems, of b] by (simp only: append_Cons) simp
  then have "replace_scan ''.value'' new (c # (a @ ''.value'' @ b))
           = c # replace_scan ''.value'' new (a @ ''.value'' @ b)"
    by (rule replace_scan_skip)
  with Cons.IH [OF n] show ?case by (simp only: append_Cons)
qed

lemma replace_scan_none: "\<not> contains old s \<Longrightarrow> replace_scan old new s = s"
  by (induction s) auto

subsection \<open>The transport\<close>

lemma read_data_json_eq:
  "read_data_json srv typename api body log =
     (transport srv (length log) (mk_request typename api body),
      log @ [mk_request typename api body])"
  by (simp add: read_data_json_def Let_def)

text \<open>
  C4, as amended. A response with a status other than 200 makes the call fail. When its
  body is an object with a \<^verbatim>\<open>message\<close> field, the exception carries that message as
  it is; when the object has no such field, the exception is Python's
  \<^verbatim>\<open>KeyError('message')\<close>, not an exception with the text "unknown error".
\<close>

theorem read_data_json_non_success:
  assumes "srv (length log) (mk_request typename api body) = Inr r"
    and "status_code r \<noteq> 200"
  shows "(\<exists>e. fst (read_data_json srv typename api body log) = Inl e) \<and>
         (\<forall>d. content r = Some (JObj d) \<longrightarrow>
            fst (read_data_json srv typename api body log) =
              (case map_of d ''message'' of
                 Some m \<Rightarrow> Inl (Exception m)
               | None \<Rightarrow> Inl (KeyError ''message'')))"
  using assms
  by (auto simp: read_data_json_eq transport_def check_response_def json_body_def
      split: option.splits sum.splits)

theorem read_data_json_non_success_witness:
  "fst (read_data_json
          (\<lambda>n req. Inr \<lparr>status_code = 400, content = Some (JObj [(''message'', JStr ''bad spec'')])\<rparr>)
          ''outbreaklocation'' ''fetch'' (JObj []) [])
     = Inl (Exception (JStr ''bad spec''))"
  using read_data_json_non_success
    [of "\<lambda>n req. Inr \<lparr>status_code = 400, content = Some (JObj [(''message'', JStr ''bad spec'')])\<rparr>"
        "[]" "''outbreaklocation''" "''fetch''" "JObj []"
        "\<lparr>status_code = 400, content = Some (JObj [(''message'', JStr ''bad spec'')])\<rparr>"]
  by simp

text \<open>
  C4 as the specification states it fails: the body of this 400 response has no
  \<^verbatim>\<open>message\<close> field and the exception is not the one with the text "unknown error".
\<close>

theorem read_data_json_no_message_counterexample:
  "fst (read_data_json
          (\<lambda>n req. Inr \<lparr>status_code = 400, content = Some (JObj [(''error'', JStr ''bad spec'')])\<rparr>)
          ''outbreaklocation'' ''fetch'' (JObj []) [])
     = Inl (KeyError ''message'') \<and>
   fst (read_data_json
          (\<lambda>n req. Inr \<lparr>status_code = 400, content = Some (JObj [(''error'', JStr ''bad spec'')])\<rparr>)
          ''outbreaklocation'' ''fetch'' (JObj []) [])
     \<noteq> Inl (Exception (JStr ''unknown error''))"
  by (simp add: read_data_json_eq transport_def check_response_def json_body_def)

subsection \<open>Evaluating a run\<close>

lemmas run_defs =
  read_data_json_eq transport_def check_response_def json_body_def
  from_records_def nested_to_record_def unique_def dict_update_def
  apply_explode_def explode_def index_union_def reindex_def

lemmas column_defs =
  only_keep_one_date_column_def filter_regex_def columns_def filter_items_def
  rename_columns_def get_column_def set_column_def

subsection \<open>Dropping metadata in \<^verbatim>\<open>fetch\<close>\<close>

lemma drop_meta_eq:
  "drop_meta df =
     Inr (df\<lparr>series := filter (\<lambda>(c, vals). \<not> contains ''meta'' c \<and> \<not> contains ''version'' c) (series df)\<rparr>)"
proof -
  let ?P = "\<lambda>c. contains ''meta'' c \<or> contains ''version'' c"
  have a: "filter (\<lambda>l. l \<notin> set (columns df)) (filter ?P (columns df)) = []"
    by (auto simp: filter_empty_conv)
  have b: "filter (\<lambda>(c, vals). c \<notin> set (filter ?P (columns df))) (series df)
         = filter (\<lambda>(c, vals). \<not> contains ''meta'' c \<and> \<not> contains ''version'' c) (series df)"
    by (rule filter_cong) (auto simp: columns_def rev_image_eqI)
  show ?thesis
    unfolding drop_meta_def drop_columns_def a b by simp
qed

text \<open>
  C8. With \<^verbatim>\<open>remove_meta\<close>, \<^verbatim>\<open>fetch\<close> returns the frame it assembled without the
  columns whose name contains \<^verbatim>\<open>meta\<close> or \<^verbatim>\<open>version\<close> as a substring; every other
  column is kept, with its cells and in its place.
\<close>

theorem fetch_remove_meta:
  assumes "fetch_frame srv typename body get_all log = Some (Inr df, log')"
  shows "fetch srv typename body get_all True log =
           Some (Inr (df\<lparr>series := filter (\<lambda>(c, vals). \<not> contains ''meta'' c \<and> \<not> contains ''version'' c)
                                   (series df)\<rparr>),
                 log')"
  using assms by (simp add: fetch_def drop_meta_eq)

lemma records_frame:
  "fetch_frame records_server ''outbreaklocation'' (JObj [(''spec'', JObj [])]) False [] =
     Some (Inr \<lparr>index = [0],
                series = [(''id'', [Val (JStr ''a'')]), (''meta.source'', [Val (JStr ''s'')]),
                          (''version.tag'', [Val (JNum 1)]), (''value'', [Val (JNum 3)])]\<rparr>,
           [mk_request ''outbreaklocation'' ''fetch'' (JObj [(''spec'', JObj [])])])"
  by (simp add: fetch_frame_def fetch_once_def records_server_def run_defs)

theorem fetch_remove_meta_witness:
  "fetch records_server ''outbreaklocation'' (JObj [(''spec'', JObj [])]) False True [] =
     Some (Inr \<lparr>index = [0], series = [(''id'', [Val (JStr ''a'')]), (''value'', [Val (JNum 3)])]\<rparr>,
           [mk_request ''outbreaklocation'' ''fetch'' (JObj [(''spec'', JObj [])])])"
  using fetch_remove_meta [OF records_frame] by simp

subsection \<open>Keeping one date column\<close>

lemma contains_self [simp]: "contains s s"
  by (cases s) auto

lemma filter_items_all: "filter_items (columns df) df = Inr df"
  by (simp add: filter_items_def)

lemma no_dates_IndexError:
  assumes "\<forall>c \<in> set (columns df). \<not> contains ''dates'' c"
  shows "only_keep_one_date_column to_datetime df = Inl IndexError"
proof -
  have a: "filter (contains ''dates'') (columns df) = []"
    using assms by (simp add: filter_empty_conv)
  have b: "filter (\<lambda>col. \<not> contains ''dates'' col) (columns df) = columns df"
    using assms by (simp add: filter_id_conv)
  show ?thesis
    by (simp add: only_keep_one_date_column_def a b filter_items_all)
qed

lemma columns_filter_regex: "set (columns (filter_regex alts df)) \<subseteq> set (columns df)"
  by (auto simp: columns_def filter_regex_def)

text \<open>
  C10. When the frame that \<^verbatim>\<open>evalmetrics\<close> or \<^verbatim>\<open>getprojectionhistory\<close> has assembled
  has no column whose name contains \<^verbatim>\<open>dates\<close>, the operation raises
  \<^verbatim>\<open>IndexError\<close> and returns no frame, whatever \<^verbatim>\<open>remove_meta\<close> is: the first date
  column is selected unconditionally.
\<close>

theorem no_dates_column_raises:
  "(evalmetrics_frame srv typename body get_all log = (Inr df, log') \<and>
    (\<forall>c \<in> set (columns df). \<not> contains ''dates'' c) \<longrightarrow>
      evalmetrics to_datetime srv typename body get_all remove_meta log = (Inl IndexError, log')) \<and>
   (getprojectionhistory_frame srv body log = (Inr df, log') \<and>
    (\<forall>c \<in> set (columns df). \<not> contains ''dates'' c) \<longrightarrow>
      getprojectionhistory to_datetime srv body remove_meta log = (Inl IndexError, log'))"
proof -
  have "only_keep_one_date_column to_datetime (if remove_meta then filter_regex alts df else df) = Inl IndexError"
    if "\<forall>c \<in> set (columns df). \<not> contains ''dates'' c" for alts
    using that columns_filter_regex [of alts df] by (intro no_dates_IndexError) auto
  then show ?thesis
    by (simp add: evalmetrics_def getprojectionhistory_def getprojectionhistory_dates_def)
qed

theorem no_dates_column_raises_witness:
  "evalmetrics_frame timeseries_server ''outbreaklocation''
      (JObj [(''spec'', JObj [(''ids'', JArr []), (''expressions'', JArr [JStr ''JHU_ConfirmedCases''])])]) True []
     = (Inr DataFrame, []) \<and>
   evalmetrics Inr timeseries_server ''outbreaklocation''
      (JObj [(''spec'', JObj [(''ids'', JArr []), (''expressions'', JArr [JStr ''JHU_ConfirmedCases''])])]) True False []
     = (Inl IndexError, []) \<and>
   getprojectionhistory_frame (\<lambda>n req. Inr \<lparr>status_code = 200, content = Some (JObj [(''data'', JArr [JNum 1, JNum 2])])\<rparr>) (JObj []) []
     = (Inr \<lparr>index = [0, 0], series = [(''data'', [Val (JNum 1), Val (JNum 2)])]\<rparr>,
        [mk_request ''outbreaklocation'' ''getprojectionhistory'' (JObj [])]) \<and>
   getprojectionhistory Inr (\<lambda>n req. Inr \<lparr>status_code = 200, content = Some (JObj [(''data'', JArr [JNum 1, JNum 2])])\<rparr>) (JObj []) False []
     = (Inl IndexError, [mk_request ''outbreaklocation'' ''getprojectionhistory'' (JObj [])])"
proof -
  have a: "evalmetrics_frame timeseries_server ''outbreaklocation''
      (JObj [(''spec'', JObj [(''ids'', JArr []), (''expressions'', JArr [JStr ''JHU_ConfirmedCases''])])]) True []
     = (Inr DataFrame, [])"
    by (simp add: evalmetrics_frame_def evalmetrics_loops_def range_step_def)
  have b: "getprojectionhistory_frame (\<lambda>n req. Inr \<lparr>status_code = 200, content = Some (JObj [(''data'', JArr [JNum 1, JNum 2])])\<rparr>) (JObj []) []
     = (Inr \<lparr>index = [0, 0], series = [(''data'', [Val (JNum 1), Val (JNum 2)])]\<rparr>,
        [mk_request ''outbreaklocation'' ''getprojectionhistory'' (JObj [])])"
    by (simp add: getprojectionhistory_frame_def run_defs)
  show ?thesis
    using a b
      no_dates_column_raises [where srv = timeseries_server and typename = "''outbreaklocation''"
        and body = "JObj [(''spec'', JObj [(''ids'', JArr []), (''expressions'', JArr [JStr ''JHU_ConfirmedCases''])])]"
        and get_all = True and log = "[]" and df = DataFrame and log' = "[]" and to_datetime = Inr
        and remove_meta = False]
      no_dates_column_raises [where log = "[]"
        and df = "\<lparr>index = [0, 0], series = [(''data'', [Val (JNum 1), Val (JNum 2)])]\<rparr>"
        and log' = "[mk_request ''outbreaklocation'' ''getprojectionhistory'' (JObj [])]"
        and to_datetime = Inr and remove_meta = False
        and srv = "\<lambda>n req. Inr \<lparr>status_code = 200, content = Some (JObj [(''data'', JArr [JNum 1, JNum 2])])\<rparr>"
        and body = "JObj []"]
    by (simp add: DataFrame_def columns_def)
qed















subsection \<open>Renaming the columns of a projection history\<close>

text \<open>
  C9, as amended. \<^verbatim>\<open>getprojectionhistory\<close> returns the frame of its date step with
  every column name passed through \<^verbatim>\<open>replace(".value", "")\<close>. That is one scan from
  the left: the text before the first occurrence is kept, the occurrence is removed and
  the scan goes on in the rest; a name without an occurrence is unchanged. What the scan
  leaves is not scanned again.
\<close>

theorem value_stripped_once:
  "(getprojectionhistory_frame srv body log = (Inr df, log') \<and>
    getprojectionhistory_dates to_datetime remove_meta df = Inr df0 \<longrightarrow>
      getprojectionhistory to_datetime srv body remove_meta log =
        (Inr (df0\<lparr>series := map (\<lambda>(c, vals). (str_replace ''.value'' '''' c, vals)) (series df0)\<rparr>),
         log')) \<and>
   (\<not> contains ''.value'' a \<longrightarrow>
      str_replace ''.value'' '''' (a @ ''.value'' @ b) = a @ str_replace ''.value'' '''' b) \<and>
   (\<not> contains ''.value'' s \<longrightarrow> str_replace ''.value'' '''' s = s)"
  using replace_scan_value [of a "''''" b] replace_scan_none [of "''.value''" s "''''"]
  by (simp add: getprojectionhistory_def rename_columns_def str_replace_def)

lemma projection_frame:
  "getprojectionhistory_frame projection_server (JObj []) [] =
     (Inr \<lparr>index = [0, 0],
           series = [(''dates'', [Val (JStr ''2020-01-01''), Val (JStr ''2020-01-02'')]),
                     (''projection.value.value'', [Val (JNum 1), Val (JNum 2)])]\<rparr>,
      [mk_request ''outbreaklocation'' ''getprojectionhistory'' (JObj [])])"
  by (simp add: getprojectionhistory_frame_def projection_server_def run_defs)

lemma projection_dates:
  "getprojectionhistory_dates Inr False
     \<lparr>index = [0, 0],
      series = [(''dates'', [Val (JStr ''2020-01-01''), Val (JStr ''2020-01-02'')]),
                (''projection.value.value'', [Val (JNum 1), Val (JNum 2)])]\<rparr> =
   Inr \<lparr>index = [0, 0],
      series = [(''dates'', [Val (JStr ''2020-01-01''), Val (JStr ''2020-01-02'')]),
                (''projection.value.value'', [Val (JNum 1), Val (JNum 2)])]\<rparr>"
  by (simp add: getprojectionhistory_dates_def only_keep_one_date_column_def filter_regex_def
      columns_def filter_items_def rename_columns_def get_column_def set_column_def)

theorem value_stripped_once_witness:
  "getprojectionhistory Inr projection_server (JObj []) False [] =
     (Inr \<lparr>index = [0, 0],
           series = [(''dates'', [Val (JStr ''2020-01-01''), Val (JStr ''2020-01-02'')]),
                     (''projection'', [Val (JNum 1), Val (JNum 2)])]\<rparr>,
      [mk_request ''outbreaklocation'' ''getprojectionhistory'' (JObj [])]) \<and>
   str_replace ''.value'' '''' (''projection'' @ ''.value'' @ ''.value'') =
     ''projection'' @ str_replace ''.value'' '''' ''.value'' \<and>
   str_replace ''.value'' '''' ''projection'' = ''projection''"
  using value_stripped_once
      [where srv = projection_server and body = "JObj []" and log = "[]" and to_datetime = Inr
         and remove_meta = False
         and df = "\<lparr>index = [0, 0],
           series = [(''dates'', [Val (JStr ''2020-01-01''), Val (JStr ''2020-01-02'')]),
                     (''projection.value.value'', [Val (JNum 1), Val (JNum 2)])]\<rparr>"
         and ?df0.0 = "\<lparr>index = [0, 0],
           series = [(''dates'', [Val (JStr ''2020-01-01''), Val (JStr ''2020-01-02'')]),
                     (''projection.value.value'', [Val (JNum 1), Val (JNum 2)])]\<rparr>"
         and log' = "[mk_request ''outbreaklocation'' ''getprojectionhistory'' (JObj [])]"
         and a = "''projection''" and b = "''.value''" and s = "''projection''"]
  by (simp add: projection_frame projection_dates str_replace_def)

text \<open>
  C9 as the specification states it fails: the name left by the scan still contains
  \<^verbatim>\<open>.value\<close>.
\<close>

theorem value_left_after_strip_counterexample:
  "str_replace ''.value'' '''' ''x.va.valuelue'' = ''x.value'' \<and>
   contains ''.value'' (str_replace ''.value'' '''' ''x.va.valuelue'')"
  by (simp add: str_replace_def)

subsection \<open>Expanding sequences and merging batches\<close>

lemma index_union_same [simp]: "index_union a a = a"
  by (simp add: index_union_def)

lemma reindex_same [simp]: "reindex u u cols = Inr cols"
  by (simp add: reindex_def)

lemma foldl_index_union_same:
  "\<forall>i \<in> set is. i = a \<Longrightarrow> foldl index_union a is = a"
  by (induction "is") auto

lemma map_raise_Inr:
  "\<forall>x \<in> set xs. f x = Inr (g x) \<Longrightarrow> map_raise f xs = Inr (map g xs)"
  by (induction xs) auto

lemma explode_sequence:
  "length xs = n \<Longrightarrow> 0 < n \<Longrightarrow> explode [l] [Val (JArr xs)] = (replicate n l, map Val xs)"
  by (cases xs) (auto simp: explode_def)

text \<open>
  C7, as amended. In a frame of one row with at least one column, in which every cell
  holds a sequence of the same length \<open>n > 0\<close>, the expansion gives exactly \<open>n\<close> rows,
  and row \<open>k\<close> holds the \<open>k\<close>-th element of each column's sequence, in the order of the
  sequences.
\<close>

theorem explode_equal_lengths:
  assumes "index df = [l]"
    and "series df = map (\<lambda>(c, xs). (c, [Val (JArr xs)])) cols"
    and "cols \<noteq> []"
    and "\<forall>(c, xs) \<in> set cols. length xs = n"
    and "0 < n"
  shows "\<exists>df'. apply_explode df = Inr df' \<and>
               df' = \<lparr>index = replicate n l, series = map (\<lambda>(c, xs). (c, map Val xs)) cols\<rparr> \<and>
               nrows df' = n \<and>
               (\<forall>k < n. row df' k = map (\<lambda>(c, xs). Val (xs ! k)) cols)"
proof -
  let ?ex = "map (\<lambda>(c, xs). (c, (replicate n l, map Val xs))) cols"
  have ex: "map (\<lambda>(c, vals). (c, explode (index df) vals)) (series df) = ?ex"
    using assms(4,5) by (auto simp: assms(1,2) explode_sequence)
  obtain c0 xs0 rest where cols: "cols = (c0, xs0) # rest"
    using assms(3) by (cases cols) auto
  have u: "foldl index_union (replicate n l)
             (map (\<lambda>(c, (idx, vals)). idx) (map (\<lambda>(c, xs). (c, (replicate n l, map Val xs))) rest))
           = replicate n l"
    by (rule foldl_index_union_same) auto
  have m: "map_raise (\<lambda>(c, (idx, vals)). reindex (replicate n l) idx [(c, vals)]) ?ex
           = Inr (map (\<lambda>(c, (idx, vals)). [(c, vals)]) ?ex)"
    by (rule map_raise_Inr) auto
  have c: "concat (map (\<lambda>(c, (idx, vals)). [(c, vals)]) ?ex) = map (\<lambda>(c, xs). (c, map Val xs)) cols"
    by (induction cols) auto
  have "apply_explode df =
          Inr \<lparr>index = replicate n l, series = map (\<lambda>(c, xs). (c, map Val xs)) cols\<rparr>"
    unfolding apply_explode_def ex
    using u m c by (simp add: cols)
  moreover have "row \<lparr>index = replicate n l, series = map (\<lambda>(c, xs). (c, map Val xs)) cols\<rparr> k
                 = map (\<lambda>(c, xs). Val (xs ! k)) cols" if "k < n" for k
    using that assms(4) by (auto simp: row_def)
  ultimately show ?thesis by (simp add: nrows_def)
qed

theorem explode_equal_lengths_witness:
  "apply_explode \<lparr>index = [0],
       series = [(''data'', [Val (JArr [JNum 10, JNum 20, JNum 30])]),
                 (''dates'', [Val (JArr [JStr ''2020-01-01'', JStr ''2020-01-02'', JStr ''2020-01-03''])])]\<rparr> =
     Inr \<lparr>index = [0, 0, 0],
          series = [(''data'', [Val (JNum 10), Val (JNum 20), Val (JNum 30)]),
                    (''dates'', [Val (JStr ''2020-01-01''), Val (JStr ''2020-01-02''), Val (JStr ''2020-01-03'')])]\<rparr> \<and>
   nrows \<lparr>index = [0, 0, 0],
          series = [(''data'', [Val (JNum 10), Val (JNum 20), Val (JNum 30)]),
                    (''dates'', [Val (JStr ''2020-01-01''), Val (JStr ''2020-01-02''), Val (JStr ''2020-01-03'')])]\<rparr> = 3 \<and>
   row \<lparr>index = [0, 0, 0],
          series = [(''data'', [Val (JNum 10), Val (JNum 20), Val (JNum 30)]),
                    (''dates'', [Val (JStr ''2020-01-01''), Val (JStr ''2020-01-02''), Val (JStr ''2020-01-03'')])]\<rparr> 1
     = [Val (JNum 20), Val (JStr ''2020-01-02'')]"
  using explode_equal_lengths
    [where df = "\<lparr>index = [0],
       series = [(''data'', [Val (JArr [JNum 10, JNum 20, JNum 30])]),
                 (''dates'', [Val (JArr [JStr ''2020-01-01'', JStr ''2020-01-02'', JStr ''2020-01-03''])])]\<rparr>"
       and l = 0 and n = 3
       and cols = "[(''data'', [JNum 10, JNum 20, JNum 30]),
                    (''dates'', [JStr ''2020-01-01'', JStr ''2020-01-02'', JStr ''2020-01-03''])]"]
  by (simp add: numeral_3_eq_3 nrows_def row_def)

text \<open>
  C7 as the specification states it fails for \<open>n = 0\<close>: cells holding empty sequences
  expand into one row of missing values, not into no row.
\<close>

theorem explode_empty_sequences_counterexample:
  "apply_explode \<lparr>index = [0], series = [(''data'', [Val (JArr [])]), (''dates'', [Val (JArr [])])]\<rparr> =
     Inr \<lparr>index = [0], series = [(''data'', [NaN]), (''dates'', [NaN])]\<rparr> \<and>
   nrows \<lparr>index = [0], series = [(''data'', [NaN]), (''dates'', [NaN])]\<rparr> = 1"
  by (simp add: apply_explode_def explode_def nrows_def)










lemma row_append:
  "row \<lparr>index = idx, series = sa @ sb\<rparr> i = row \<lparr>index = idx, series = sa\<rparr> i @ row \<lparr>index = idx, series = sb\<rparr> i"
  by (simp add: row_def)




subsection \<open>Failure of a call\<close>

lemma aofI:
  assumes "prefix log log'"
    and "\<And>i e. length log \<le> i \<Longrightarrow> i < length log' \<Longrightarrow> transport srv i (log' ! i) = Inl e \<Longrightarrow> r = Inl e"
  shows "aborts_on_failure srv log (r, log')"
  unfolding aborts_on_failure_def using assms by (intro conjI allI impI) auto

lemma aofD:
  assumes "aborts_on_failure srv log (r, log')"
    and "length log \<le> i" and "i < length log'" and "transport srv i (log' ! i) = Inl e"
  shows "r = Inl e"
  using assms by (simp add: aborts_on_failure_def)

lemma aof_prefix: "aborts_on_failure srv log (r, log') \<Longrightarrow> prefix log log'"
  by (simp add: aborts_on_failure_def)

lemma aof_pure [simp]: "aborts_on_failure srv log (r, log)"
  by (rule aofI) simp_all

lemma aof_call: "aborts_on_failure srv log (read_data_json srv typename api body log)"
  unfolding read_data_json_eq
proof (rule aofI)
  show "prefix log (log @ [mk_request typename api body])" by simp
next
  fix i e
  assume "length log \<le> i" "i < length (log @ [mk_request typename api body])"
    and t: "transport srv i ((log @ [mk_request typename api body]) ! i) = Inl e"
  then have "i = length log" by simp
  with t show "transport srv (length log) (mk_request typename api body) = Inl e" by simp
qed

lemma aof_seq:
  assumes "aborts_on_failure srv log (Inr x, log1)" and "aborts_on_failure srv log1 (r, log2)"
  shows "aborts_on_failure srv log (r, log2)"
proof (rule aofI)
  from assms have p: "prefix log log1" "prefix log1 log2"
    by (simp_all add: aof_prefix)
  then show "prefix log log2" by simp
  fix i e
  assume i: "length log \<le> i" "i < length log2" and t: "transport srv i (log2 ! i) = Inl e"
  show "r = Inl e"
  proof (cases "i < length log1")
    case True
    with p(2) have "log2 ! i = log1 ! i"
      by (auto simp: prefix_def nth_append)
    with aofD [OF assms(1) i(1) True] t have "Inr x = Inl e" by simp
    then show ?thesis by simp
  next
    case False
    then have "length log1 \<le> i" by simp
    from aofD [OF assms(2) this i(2) t] show ?thesis .
  qed
qed

lemma aof_Inl:
  assumes "aborts_on_failure srv log (Inl e, log1)"
  shows "aborts_on_failure srv log (Inl e, log1)"
  using assms by (simp add: aborts_on_failure_def)

lemma aof_then:
  assumes "aborts_on_failure srv log (Inr x, log1)"
  shows "aborts_on_failure srv log (r, log1)"
  using aof_seq [OF assms aof_pure] .

lemma aof_call_then:
  assumes "read_data_json srv typename api body log = (Inr x, log1)"
  shows "aborts_on_failure srv log (r, log1)"
proof -
  from aof_call [of srv log typename api body] assms
  have "aborts_on_failure srv log (Inr x, log1)" by simp
  then show ?thesis by (rule aof_then)
qed

lemma aof_for_each:
  assumes "\<And>i s log. aborts_on_failure srv log (step i s log)"
  shows "aborts_on_failure srv log (for_each step xs s log)"
proof (induction xs arbitrary: s log)
  case Nil
  show ?case by simp
next
  case (Cons i xs)
  show ?case
  proof (cases "step i s log")
    case (Pair r log1)
    show ?thesis
    proof (cases r)
      case (Inl e)
      with Pair assms [of log i s] show ?thesis by simp
    next
      case (Inr s')
      with Pair assms [of log i s] have a: "aborts_on_failure srv log (Inr s', log1)" by simp
      obtain r2 log2 where o: "for_each step xs s' log1 = (r2, log2)"
        by (cases "for_each step xs s' log1")
      with Cons.IH [of log1 s'] have "aborts_on_failure srv log1 (r2, log2)" by simp
      from aof_seq [OF a this] Pair Inr o show ?thesis by simp
    qed
  qed
qed

lemma aof_fetch_page: "aborts_on_failure srv log (fetch_page srv typename body offset df log)"
proof (cases "spec_update body [(''limit'', JNum (int limit)), (''offset'', JNum (int offset))]")
  case (Inl e)
  then show ?thesis by (simp add: fetch_page_def)
next
  case (Inr body')
  show ?thesis
  proof (cases "read_data_json srv typename ''fetch'' body' log")
    case (Pair r log1)
    show ?thesis
    proof (cases r)
      case (Inl e)
      with Pair Inr aof_call [of srv log typename "''fetch''" body'] show ?thesis
        by (simp add: fetch_page_def aof_Inl)
    next
      case r: (Inr response)
      have "fetch_page srv typename body offset df log = (fst (fetch_page srv typename body offset df log), log1)"
        using Pair Inr r by (simp add: fetch_page_def split: sum.splits)
      with aof_call_then [of srv typename "''fetch''" body' log response log1] Pair r
      show ?thesis by metis
    qed
  qed
qed

lemmas fetch_loop_induct = fetch_loop.raw_induct [rotated 1, consumes 1, case_names step]

lemma aof_fetch_loop:
  assumes "fetch_loop srv typename body offset df log = Some out"
  shows "aborts_on_failure srv log out"
  using assms
proof (induction srv typename body offset df log out rule: fetch_loop_induct)
  case (step fetch_loop' srv typename body offset df log out)
  show ?case
  proof (cases "fetch_page srv typename body offset df log")
    case (Pair r log1)
    show ?thesis
    proof (cases r)
      case (Inl e)
      with Pair step(2) aof_fetch_page [of srv log typename body offset df] show ?thesis
        by (auto intro: aof_Inl)
    next
      case (Inr st)
      obtain body' df' has_more where st: "st = (body', df', has_more)" by (cases st)
      from Pair Inr aof_fetch_page [of srv log typename body offset df]
      have a: "aborts_on_failure srv log (Inr st, log1)" by simp
      show ?thesis
      proof (cases "truthy has_more")
        case True
        with step(2) Pair Inr st have "fetch_loop' srv typename body' (offset + limit) df' log1 = Some out"
          by simp
        then have "aborts_on_failure srv log1 out" by (rule step(1))
        with aof_seq [OF a, of "fst out" "snd out"] show ?thesis by simp
      next
        case False
        with step(2) Pair Inr st have "out = (Inr df', log1)" by simp
        with aof_then [OF a] show ?thesis by simp
      qed
    qed
  qed
qed


lemma aof_after_call:
  assumes "read_data_json srv typename api body log = (r, log1)"
    and "\<And>e. r = Inl e \<Longrightarrow> out = (Inl e, log1)"
    and "snd out = log1"
  shows "aborts_on_failure srv log out"
proof (cases r)
  case (Inl e)
  with assms(1) aof_call [of srv log typename api body]
  have "aborts_on_failure srv log (Inl e :: py_error + json, log1)" by simp
  then have "aborts_on_failure srv log (Inl e, log1)" by (rule aof_Inl)
  with assms(2) [OF Inl] show ?thesis by simp
next
  case (Inr x)
  from aof_call_then [of srv typename api body log x log1 "fst out"] assms(1,3) Inr
  show ?thesis by (metis prod.collapse)
qed

lemma aof_fetch_once: "aborts_on_failure srv log (fetch_once srv typename body log)"
proof (cases "read_data_json srv typename ''fetch'' body log")
  case (Pair r log1)
  then show ?thesis
    by (rule aof_after_call) (auto simp: fetch_once_def Pair split: sum.splits)
qed

lemma aof_evalmetrics_batch:
  "aborts_on_failure srv log
     (evalmetrics_batch srv typename ids expressions ids_start expressions_start st log)"
proof (cases "py_slice ids ids_start (ids_start + 10)")
  case (Inl e)
  then show ?thesis by (simp add: evalmetrics_batch_def)
next
  case ids_batch: (Inr ids_batch)
  show ?thesis
  proof (cases "py_slice expressions expressions_start (expressions_start + 4)")
    case (Inl e)
    then show ?thesis by (simp add: evalmetrics_batch_def ids_batch)
  next
    case expressions_batch: (Inr expressions_batch)
    show ?thesis
    proof (cases "spec_update (fst st) [(''ids'', ids_batch), (''expressions'', expressions_batch)]")
      case (Inl e)
      then show ?thesis by (simp add: evalmetrics_batch_def ids_batch expressions_batch)
    next
      case body': (Inr body')
      show ?thesis
      proof (cases "read_data_json srv typename ''evalmetrics'' body' log")
        case (Pair r log1)
        then show ?thesis
          by (rule aof_after_call)
             (auto simp: evalmetrics_batch_def ids_batch expressions_batch body' Pair
               split: sum.splits)
      qed
    qed
  qed
qed

lemma aof_evalmetrics_loops:
  "aborts_on_failure srv log (evalmetrics_loops srv typename ids expressions n st log)"
  unfolding evalmetrics_loops_def
proof (rule aof_for_each)
  fix i s log
  show "aborts_on_failure srv log
          (case py_len expressions of
             Inl e \<Rightarrow> (Inl e, log)
           | Inr m \<Rightarrow> for_each (evalmetrics_batch srv typename ids expressions i) (range_step m 4) s log)"
    by (cases "py_len expressions") (simp_all add: aof_for_each aof_evalmetrics_batch)
qed

lemma aof_map:
  assumes "aborts_on_failure srv log (r, log1)"
    and "\<And>e. r = Inl e \<Longrightarrow> r' = Inl e"
  shows "aborts_on_failure srv log (r', log1)"
proof (cases r)
  case (Inl e)
  with assms show ?thesis by (auto intro: aof_Inl)
next
  case (Inr x)
  with assms(1) show ?thesis by (auto intro: aof_then)
qed

lemma aof_evalmetrics_frame:
  "aborts_on_failure srv log (evalmetrics_frame srv typename body get_all log)"
proof (cases get_all)
  case True
  show ?thesis
  proof (cases "getitem body ''spec''")
    case (Inl e)
    then show ?thesis by (simp add: evalmetrics_frame_def True)
  next
    case spec: (Inr spec)
    show ?thesis
    proof (cases "getitem spec ''expressions''")
      case (Inl e)
      then show ?thesis by (simp add: evalmetrics_frame_def True spec)
    next
      case expressions: (Inr expressions)
      show ?thesis
      proof (cases "getitem spec ''ids''")
        case (Inl e)
        then show ?thesis by (simp add: evalmetrics_frame_def True spec expressions)
      next
        case ids: (Inr ids)
        show ?thesis
        proof (cases "py_len ids")
          case (Inl e)
          then show ?thesis by (simp add: evalmetrics_frame_def True spec expressions ids)
        next
          case n: (Inr n)
          obtain r log1 where
            l: "evalmetrics_loops srv typename ids expressions n (body, DataFrame) log = (r, log1)"
            by (cases "evalmetrics_loops srv typename ids expressions n (body, DataFrame) log")
          with aof_evalmetrics_loops [of srv log typename ids expressions n "(body, DataFrame)"]
          have "aborts_on_failure srv log (r, log1)" by simp
          then have "aborts_on_failure srv log
                       (case r of Inl e \<Rightarrow> Inl e | Inr st \<Rightarrow> Inr (snd st), log1)"
            by (rule aof_map) simp
          then show ?thesis
            by (cases r) (simp_all add: evalmetrics_frame_def True spec expressions ids n l)
        qed
      qed
    qed
  qed
next
  case False
  show ?thesis
  proof (cases "read_data_json srv typename ''evalmetrics'' body log")
    case (Pair r log1)
    then show ?thesis
      by (rule aof_after_call) (auto simp: evalmetrics_frame_def False Pair split: sum.splits)
  qed
qed

lemma aof_evalmetrics:
  "aborts_on_failure srv log (evalmetrics to_datetime srv typename body get_all remove_meta log)"
proof (cases "evalmetrics_frame srv typename body get_all log")
  case (Pair r log1)
  with aof_evalmetrics_frame [of srv log typename body get_all]
  have "aborts_on_failure srv log (r, log1)" by simp
  then have "aborts_on_failure srv log
               (case r of
                  Inl e \<Rightarrow> Inl e
                | Inr df \<Rightarrow>
                    only_keep_one_date_column to_datetime
                      (if remove_meta then filter_regex [''dates'', ''data'', ''missing''] df else df),
                log1)"
    by (rule aof_map) simp
  then show ?thesis
    using Pair by (cases r) (simp_all add: evalmetrics_def)
qed

lemma aof_fetch:
  assumes "fetch srv typename body get_all remove_meta log = Some out"
  shows "aborts_on_failure srv log out"
proof -
  from assms obtain r log1 where f: "fetch_frame srv typename body get_all log = Some (r, log1)"
    by (auto simp: fetch_def split: option.splits)
  have "aborts_on_failure srv log (r, log1)"
  proof (cases get_all)
    case True
    with f show ?thesis by (simp add: fetch_frame_def aof_fetch_loop)
  next
    case False
    with f aof_fetch_once [of srv log typename body] show ?thesis by (simp add: fetch_frame_def)
  qed
  then have "aborts_on_failure srv log
               (case r of Inl e \<Rightarrow> Inl e | Inr df \<Rightarrow> if remove_meta then drop_meta df else Inr df, log1)"
    by (rule aof_map) simp
  with assms f show ?thesis
    by (auto simp: fetch_def split: sum.splits)
qed

text \<open>
  C5. In \<^verbatim>\<open>fetch\<close> and in \<^verbatim>\<open>evalmetrics\<close>, with or without \<^verbatim>\<open>get_all\<close>, if
  the answer to any request the operation has sent makes \<^verbatim>\<open>read_data_json\<close> raise,
  however many requests before it succeeded, the operation ends with that exception: it
  returns no frame, and so none built from the batches merged before.
\<close>

theorem failure_aborts:
  "(fetch srv typename body get_all remove_meta log = Some (r, log') \<and>
    length log \<le> i \<and> i < length log' \<and> transport srv i (log' ! i) = Inl e
      \<longrightarrow> r = Inl e) \<and>
   (evalmetrics to_datetime srv typename body get_all remove_meta log = (r, log') \<and>
    length log \<le> i \<and> i < length log' \<and> transport srv i (log' ! i) = Inl e
      \<longrightarrow> r = Inl e)"
  using aof_fetch [of srv typename body get_all remove_meta log "(r, log')"]
    aof_evalmetrics [of srv log to_datetime typename body get_all remove_meta]
  by (auto dest: aofD)

lemma failing_fetch:
  "fetch failing_server ''outbreaklocation'' (JObj [(''spec'', JObj [])]) True True [] =
     Some (Inl (Exception (JStr ''bad spec'')),
           [mk_request ''outbreaklocation'' ''fetch''
              (JObj [(''spec'', JObj [(''limit'', JNum 2000), (''offset'', JNum 0)])]),
            mk_request ''outbreaklocation'' ''fetch''
              (JObj [(''spec'', JObj [(''limit'', JNum 2000), (''offset'', JNum 2000)])])])"
  by (simp add: fetch_def fetch_frame_def fetch_loop.simps fetch_page_def spec_update_def limit_def
      failing_server_def append_def column_or_nan_def columns_def DataFrame_def nrows_def run_defs)

lemma failing_evalmetrics:
  "evalmetrics Inr failing_server ''outbreaklocation''
     (JObj [(''spec'', JObj [(''ids'', JArr (map JStr [''a'', ''b'', ''c'', ''d'', ''e'', ''f'', ''g'', ''h'', ''i'', ''j'', ''k''])),
                             (''expressions'', JArr [JStr ''JHU_ConfirmedCases''])])]) True True [] =
     (Inl (Exception (JStr ''bad spec'')),
      [mk_request ''outbreaklocation'' ''evalmetrics''
         (JObj [(''spec'', JObj [(''ids'', JArr (map JStr [''a'', ''b'', ''c'', ''d'', ''e'', ''f'', ''g'', ''h'', ''i'', ''j''])),
                                 (''expressions'', JArr [JStr ''JHU_ConfirmedCases''])])]),
       mk_request ''outbreaklocation'' ''evalmetrics''
         (JObj [(''spec'', JObj [(''ids'', JArr (map JStr [''k''])),
                                 (''expressions'', JArr [JStr ''JHU_ConfirmedCases''])])])])"
  by (simp add: evalmetrics_def evalmetrics_frame_def evalmetrics_loops_def evalmetrics_batch_def
      range_step_def upt_rec spec_update_def concat_columns_def
      failing_server_def DataFrame_def run_defs)

theorem failure_aborts_witness:
  "fetch failing_server ''outbreaklocation'' (JObj [(''spec'', JObj [])]) True True [] =
     Some (Inl (Exception (JStr ''bad spec'')),
           [mk_request ''outbreaklocation'' ''fetch''
              (JObj [(''spec'', JObj [(''limit'', JNum 2000), (''offset'', JNum 0)])]),
            mk_request ''outbreaklocation'' ''fetch''
              (JObj [(''spec'', JObj [(''limit'', JNum 2000), (''offset'', JNum 2000)])])]) \<and>
   transport failing_server 0
     (mk_request ''outbreaklocation'' ''fetch''
        (JObj [(''spec'', JObj [(''limit'', JNum 2000), (''offset'', JNum 0)])]))
     = Inr (JObj [(''objs'', JArr [JObj [(''id'', JStr ''a'')]]),
                  (''hasMore'', JBool True),
                  (''result'', JObj [(''expr1'', JObj [(''dates'', JArr [JStr ''2020-01-01'']),
                                                      (''data'', JArr [JNum 1])])])]) \<and>
   transport failing_server 1
     (mk_request ''outbreaklocation'' ''fetch''
        (JObj [(''spec'', JObj [(''limit'', JNum 2000), (''offset'', JNum 2000)])]))
     = Inl (Exception (JStr ''bad spec'')) \<and>
   fst (evalmetrics Inr failing_server ''outbreaklocation''
     (JObj [(''spec'', JObj [(''ids'', JArr (map JStr [''a'', ''b'', ''c'', ''d'', ''e'', ''f'', ''g'', ''h'', ''i'', ''j'', ''k''])),
                             (''expressions'', JArr [JStr ''JHU_ConfirmedCases''])])]) True True [])
     = Inl (Exception (JStr ''bad spec''))"
  using
    failure_aborts
      [where srv = failing_server and typename = "''outbreaklocation''"
         and body = "JObj [(''spec'', JObj [])]" and get_all = True and remove_meta = True
         and log = "[]" and i = 1 and e = "Exception (JStr ''bad spec'')"
         and r = "Inl (Exception (JStr ''bad spec''))"
         and log' = "[mk_request ''outbreaklocation'' ''fetch''
              (JObj [(''spec'', JObj [(''limit'', JNum 2000), (''offset'', JNum 0)])]),
            mk_request ''outbreaklocation'' ''fetch''
              (JObj [(''spec'', JObj [(''limit'', JNum 2000), (''offset'', JNum 2000)])])]"]
    failure_aborts
      [where srv = failing_server and typename = "''outbreaklocation''" and to_datetime = Inr
         and body = "JObj [(''spec'', JObj [(''ids'', JArr (map JStr [''a'', ''b'', ''c'', ''d'', ''e'', ''f'', ''g'', ''h'', ''i'', ''j'', ''k''])),
                             (''expressions'', JArr [JStr ''JHU_ConfirmedCases''])])]"
         and get_all = True and remove_meta = True
         and log = "[]" and i = 1 and e = "Exception (JStr ''bad spec'')"
         and r = "Inl (Exception (JStr ''bad spec''))"
         and log' = "[mk_request ''outbreaklocation'' ''evalmetrics''
         (JObj [(''spec'', JObj [(''ids'', JArr (map JStr [''a'', ''b'', ''c'', ''d'', ''e'', ''f'', ''g'', ''h'', ''i'', ''j''])),
                                 (''expressions'', JArr [JStr ''JHU_ConfirmedCases''])])]),
       mk_request ''outbreaklocation'' ''evalmetrics''
         (JObj [(''spec'', JObj [(''ids'', JArr (map JStr [''k''])),
                                 (''expressions'', JArr [JStr ''JHU_ConfirmedCases''])])])]"]
    failing_fetch failing_evalmetrics
  by (simp add: transport_def failing_server_def check_response_def json_body_def)

subsection \<open>Pagination in \<^verbatim>\<open>fetch\<close>\<close>

lemma update_update_other:
  "k1 \<noteq> k2 \<Longrightarrow>
   AList.update k1 a' (AList.update k2 b (AList.update k1 a al)) = AList.update k2 b (AList.update k1 a' al)"
  by (induction al) auto

lemma dict_update_twice:
  assumes "k1 \<noteq> k2"
  shows "dict_update (dict_update d [(k1, a), (k2, b)]) [(k1, a'), (k2, b')] = dict_update d [(k1, a'), (k2, b')]"
  using assms by (simp add: dict_update_def update_update_other)

lemma spec_update_Inr:
  assumes "spec_update body kw = Inr body'"
  obtains b spec where "body = JObj b" "map_of b ''spec'' = Some (JObj spec)"
    "body' = JObj (AList.update ''spec'' (JObj (dict_update spec kw)) b)"
  using assms by (auto simp: spec_update_def split: json.splits option.splits)

lemma spec_update_object:
  "map_of b ''spec'' = Some (JObj spec) \<Longrightarrow>
   spec_update (JObj b) kw = Inr (JObj (AList.update ''spec'' (JObj (dict_update spec kw)) b))"
  by (simp add: spec_update_def)

lemma spec_update_again:
  assumes "spec_update body [(k1, a), (k2, b)] = Inr body'" and "k1 \<noteq> k2"
  shows "spec_update body' [(k1, a'), (k2, b')] = spec_update body [(k1, a'), (k2, b')]"
proof -
  from assms(1) obtain bb spec where body: "body = JObj bb" "map_of bb ''spec'' = Some (JObj spec)"
    and body': "body' = JObj (AList.update ''spec'' (JObj (dict_update spec [(k1, a), (k2, b)])) bb)"
    by (rule spec_update_Inr)
  have "map_of (AList.update ''spec'' (JObj (dict_update spec [(k1, a), (k2, b)])) bb) ''spec''
          = Some (JObj (dict_update spec [(k1, a), (k2, b)]))"
    by (simp add: update_conv')
  then show ?thesis
    unfolding body body'
    by (simp only: spec_update_object body(2) dict_update_twice [OF assms(2)] update_last)
qed

lemma json_normalize_objects:
  assumes "\<forall>x \<in> set os. \<exists>d. x = JObj d"
  shows "\<exists>df. json_normalize (JArr os) = Inr df \<and> nrows df = length os"
proof (cases os)
  case Nil
  then show ?thesis by (simp add: DataFrame_def nrows_def)
next
  case (Cons x xs)
  have "\<exists>rs. map_raise as_record ys = Inr rs \<and> length rs = length ys"
    if "\<forall>x \<in> set ys. \<exists>d. x = JObj d" for ys
    using that by (induction ys) auto
  with assms obtain rs where "map_raise as_record os = Inr rs" "length rs = length os" by blast
  with Cons show ?thesis by (auto simp: from_records_def nrows_def)
qed

lemma nrows_append [simp]: "nrows (append df other) = nrows df + nrows other"
  by (simp add: append_def nrows_def)

lemma fetch_page_ok:
  assumes "spec_update body [(''limit'', JNum (int limit)), (''offset'', JNum (int offset))] = Inr body'"
    and "transport srv (length log) (mk_request typename ''fetch'' body') = Inr page"
    and "getitem page ''objs'' = Inr (JArr os)"
    and "\<forall>x \<in> set os. \<exists>d. x = JObj d"
    and "getitem page ''hasMore'' = Inr h"
  shows "\<exists>df'. fetch_page srv typename body offset df log =
                  (Inr (body', df', h), log @ [mk_request typename ''fetch'' body']) \<and>
               nrows df' = nrows df + length os"
proof -
  from json_normalize_objects [OF assms(4)]
  obtain new_df where "json_normalize (JArr os) = Inr new_df" "nrows new_df = length os" by blast
  with assms(1,2,3,5) show ?thesis
    by (simp add: fetch_page_def read_data_json_eq)
qed


lemma fetch_loop_step:
  assumes "fetch_page srv typename body offset df log = (Inr (body', df', has_more), log')"
  shows "fetch_loop srv typename body offset df log =
           (if truthy has_more then fetch_loop srv typename body' (offset + limit) df' log'
            else Some (Inr df', log'))"
  by (subst fetch_loop.simps) (simp add: assms)

lemma fetch_loop_pages:
  assumes bodies: "\<forall>i \<le> k. spec_update body [(''limit'', JNum (int limit)), (''offset'', JNum (int (i * limit)))]
                      = Inr (bodies i)"
    and pages: "\<forall>i \<le> k. transport srv i (mk_request typename ''fetch'' (bodies i)) = Inr (pages i)"
    and objs: "\<forall>i \<le> k. getitem (pages i) ''objs'' = Inr (JArr (objs i)) \<and>
                        (\<forall>x \<in> set (objs i). \<exists>d. x = JObj d)"
    and more: "\<forall>i \<le> k. getitem (pages i) ''hasMore'' = Inr (has_more i)"
    and go: "\<forall>i < k. truthy (has_more i)"
    and stop: "\<not> truthy (has_more k)"
    and j: "j \<le> k"
    and same: "\<forall>a. spec_update body_j [(''limit'', JNum (int limit)), (''offset'', a)]
                   = spec_update body [(''limit'', JNum (int limit)), (''offset'', a)]"
  shows "\<exists>df'. fetch_loop srv typename body_j (j * limit) df
                  (map (\<lambda>i. mk_request typename ''fetch'' (bodies i)) [0..<j]) =
                Some (Inr df', map (\<lambda>i. mk_request typename ''fetch'' (bodies i)) [0..<Suc k]) \<and>
              nrows df' = nrows df + (\<Sum>i = j..k. length (objs i))"
proof -
  let ?req = "\<lambda>i. mk_request typename ''fetch'' (bodies i)"
  have page: "\<exists>df'. fetch_page srv typename b (j * limit) df (map ?req [0..<j]) =
                      (Inr (bodies j, df', has_more j), map ?req [0..<Suc j]) \<and>
                    nrows df' = nrows df + length (objs j)"
    if "j \<le> k"
      and "\<forall>a. spec_update b [(''limit'', JNum (int limit)), (''offset'', a)]
                   = spec_update body [(''limit'', JNum (int limit)), (''offset'', a)]"
    for j b df
  proof -
    have up: "spec_update b [(''limit'', JNum (int limit)), (''offset'', JNum (int (j * limit)))]
                = Inr (bodies j)"
      using that bodies by simp
    have tr: "transport srv (length (map ?req [0..<j])) (?req j) = Inr (pages j)"
      using pages that(1) by simp
    have o: "getitem (pages j) ''objs'' = Inr (JArr (objs j))" "\<forall>x \<in> set (objs j). \<exists>d. x = JObj d"
      using objs that(1) by simp_all
    have m: "getitem (pages j) ''hasMore'' = Inr (has_more j)"
      using more that(1) by simp
    from fetch_page_ok [OF up tr o m, of df] show ?thesis by simp
  qed
  have same_next: "\<forall>a. spec_update (bodies j) [(''limit'', JNum (int limit)), (''offset'', a)]
                   = spec_update body [(''limit'', JNum (int limit)), (''offset'', a)]"
    if "j \<le> k" for j
  proof
    fix a
    from bodies that
    have "spec_update body [(''limit'', JNum (int limit)), (''offset'', JNum (int (j * limit)))]
            = Inr (bodies j)" by simp
    from spec_update_again [OF this] show
      "spec_update (bodies j) [(''limit'', JNum (int limit)), (''offset'', a)]
         = spec_update body [(''limit'', JNum (int limit)), (''offset'', a)]"
      by simp
  qed
  show ?thesis
    using j same
  proof (induction "k - j" arbitrary: j body_j df)
    case 0
    then have jk: "j = k" by simp
    from page [OF 0(2,3), of df]
    obtain df' where p: "fetch_page srv typename body_j (j * limit) df (map ?req [0..<j]) =
                           (Inr (bodies j, df', has_more j), map ?req [0..<Suc j])"
      and n: "nrows df' = nrows df + length (objs j)"
      by blast
    have "\<not> truthy (has_more j)" using stop jk by simp
    with fetch_loop_step [OF p]
    have "fetch_loop srv typename body_j (j * limit) df (map ?req [0..<j]) =
            Some (Inr df', map ?req [0..<Suc j])"
      by simp
    with n jk show ?case by simp
  next
    case (Suc d)
    then have jk: "j < k" by simp
    from page [OF Suc.prems, of df]
    obtain df1 where p: "fetch_page srv typename body_j (j * limit) df (map ?req [0..<j]) =
                           (Inr (bodies j, df1, has_more j), map ?req [0..<Suc j])"
      and n: "nrows df1 = nrows df + length (objs j)"
      by blast
    have d: "d = k - Suc j" using Suc.hyps(2) by simp
    have sj: "Suc j \<le> k" using jk by simp
    from Suc.hyps(1) [OF d sj same_next [OF Suc.prems(1)], of df1]
    obtain df' where
      l: "fetch_loop srv typename (bodies j) (Suc j * limit) df1 (map ?req [0..<Suc j]) =
          Some (Inr df', map ?req [0..<Suc k])"
      and n': "nrows df' = nrows df1 + (\<Sum>i = Suc j..k. length (objs i))"
      by blast
    have "truthy (has_more j)" using go jk by simp
    with fetch_loop_step [OF p]
    have "fetch_loop srv typename body_j (j * limit) df (map ?req [0..<j]) =
            fetch_loop srv typename (bodies j) (j * limit + limit) df1 (map ?req [0..<Suc j])"
      by simp
    moreover have "Suc j * limit = j * limit + limit" by simp
    ultimately have "fetch_loop srv typename body_j (j * limit) df (map ?req [0..<j]) =
            Some (Inr df', map ?req [0..<Suc k])"
      using l by (simp only:)
    moreover have "(\<Sum>i = j..k. length (objs i)) = length (objs j) + (\<Sum>i = Suc j..k. length (objs i))"
      using jk by (simp add: sum.atLeast_Suc_atMost)
    ultimately show ?case using n n' by simp
  qed
qed


lemma nrows_drop_meta: "drop_meta df = Inr df' \<Longrightarrow> nrows df' = nrows df"
  by (auto simp: drop_meta_eq nrows_def)

text \<open>
  C2. With \<^verbatim>\<open>get_all\<close>, \<^verbatim>\<open>fetch\<close> asks for page \<open>i\<close> with the limit 2000 and the
  offset \<open>2000 i\<close>, starting at 0. When the pages \<open>0, ..., k\<close> arrive, each with a list
  of objects under \<^verbatim>\<open>objs\<close>, and page \<open>k\<close> is the first whose \<^verbatim>\<open>hasMore\<close> is
  false, the loop ends: exactly the \<open>k + 1\<close> requests have been sent, and the frame
  returned has as many rows as the lists of all the pages have elements.
\<close>

theorem fetch_all_pages:
  assumes "\<forall>i \<le> k. spec_update body [(''limit'', JNum 2000), (''offset'', JNum (int (i * 2000)))]
                      = Inr (bodies i)"
    and "\<forall>i \<le> k. transport srv i (mk_request typename ''fetch'' (bodies i)) = Inr (pages i)"
    and "\<forall>i \<le> k. getitem (pages i) ''objs'' = Inr (JArr (objs i)) \<and>
                  (\<forall>x \<in> set (objs i). \<exists>d. x = JObj d)"
    and "\<forall>i \<le> k. getitem (pages i) ''hasMore'' = Inr (has_more i)"
    and "\<forall>i < k. truthy (has_more i)"
    and "\<not> truthy (has_more k)"
  shows "\<exists>df. fetch srv typename body True remove_meta [] =
                 Some (Inr df, map (\<lambda>i. mk_request typename ''fetch'' (bodies i)) [0..<Suc k]) \<and>
              nrows df = (\<Sum>i \<le> k. length (objs i))"
proof -
  have l: "int limit = 2000" "\<And>i. i * limit = i * 2000" by (simp_all add: limit_def)
  from fetch_loop_pages [of k body bodies srv typename pages objs has_more 0 body DataFrame]
    assms
  obtain df where f: "fetch_loop srv typename body 0 DataFrame [] =
                        Some (Inr df, map (\<lambda>i. mk_request typename ''fetch'' (bodies i)) [0..<Suc k])"
    and n: "nrows df = nrows DataFrame + (\<Sum>i = 0..k. length (objs i))"
    by (auto simp: l)
  have n': "nrows df = (\<Sum>i \<le> k. length (objs i))"
    using n by (simp add: DataFrame_def nrows_def atLeast0AtMost)
  show ?thesis
  proof (cases remove_meta)
    case True
    with f n' show ?thesis
      by (simp add: fetch_def fetch_frame_def drop_meta_eq nrows_def)
  next
    case False
    with f n' show ?thesis
      by (simp add: fetch_def fetch_frame_def)
  qed
qed

theorem fetch_all_pages_witness:
  "fetch paging_server ''outbreaklocation'' (JObj [(''spec'', JObj [])]) True False [] =
     Some (Inr \<lparr>index = [0, 1, 0],
                series = [(''id'', [Val (JStr ''a''), Val (JStr ''b''), Val (JStr ''c'')])]\<rparr>,
           [mk_request ''outbreaklocation'' ''fetch''
              (JObj [(''spec'', JObj [(''limit'', JNum 2000), (''offset'', JNum 0)])]),
            mk_request ''outbreaklocation'' ''fetch''
              (JObj [(''spec'', JObj [(''limit'', JNum 2000), (''offset'', JNum 2000)])]),
            mk_request ''outbreaklocation'' ''fetch''
              (JObj [(''spec'', JObj [(''limit'', JNum 2000), (''offset'', JNum 4000)])])]) \<and>
   nrows \<lparr>index = [0, 1, 0],
          series = [(''id'', [Val (JStr ''a''), Val (JStr ''b''), Val (JStr ''c'')])]\<rparr> = 2 + 1 + 0"
proof -
  let ?bodies = "\<lambda>i. JObj [(''spec'', JObj [(''limit'', JNum 2000), (''offset'', JNum (int (i * 2000)))])]"
  let ?objs = "\<lambda>i::nat. if i = 0 then [JObj [(''id'', JStr ''a'')], JObj [(''id'', JStr ''b'')]]
                       else if i = 1 then [JObj [(''id'', JStr ''c'')]] else []"
  let ?more = "\<lambda>i::nat. JBool (i < 2)"
  have a: "\<forall>i \<le> 2. spec_update (JObj [(''spec'', JObj [])])
               [(''limit'', JNum 2000), (''offset'', JNum (int (i * 2000)))] = Inr (?bodies i)"
    by (simp add: spec_update_def dict_update_def)
  have b: "\<forall>i \<le> 2. transport paging_server i (mk_request ''outbreaklocation'' ''fetch'' (?bodies i))
               = Inr (example_page i)"
    by (simp add: transport_def paging_server_def check_response_def json_body_def)
  have c: "\<forall>i \<le> 2. getitem (example_page i) ''objs'' = Inr (JArr (?objs i)) \<and>
                  (\<forall>x \<in> set (?objs i). \<exists>d. x = JObj d)"
    by (simp add: example_page_def)
  have d: "\<forall>i \<le> 2. getitem (example_page i) ''hasMore'' = Inr (?more i)"
    by (simp add: example_page_def)
  have e: "\<forall>i < 2. truthy (?more i)" by simp
  have f: "\<not> truthy (?more 2)" by simp
  have s: "(\<Sum>i \<le> 2. length (?objs i)) = 3"
    by (simp add: numeral_2_eq_2)
  have r: "fetch paging_server ''outbreaklocation'' (JObj [(''spec'', JObj [])]) True False [] =
     Some (Inr \<lparr>index = [0, 1, 0],
                series = [(''id'', [Val (JStr ''a''), Val (JStr ''b''), Val (JStr ''c'')])]\<rparr>,
           [mk_request ''outbreaklocation'' ''fetch''
              (JObj [(''spec'', JObj [(''limit'', JNum 2000), (''offset'', JNum 0)])]),
            mk_request ''outbreaklocation'' ''fetch''
              (JObj [(''spec'', JObj [(''limit'', JNum 2000), (''offset'', JNum 2000)])]),
            mk_request ''outbreaklocation'' ''fetch''
              (JObj [(''spec'', JObj [(''limit'', JNum 2000), (''offset'', JNum 4000)])])])"
    by (simp add: fetch_def fetch_frame_def fetch_loop.simps fetch_page_def spec_update_def limit_def
        paging_server_def example_page_def append_def column_or_nan_def columns_def DataFrame_def
        nrows_def run_defs)
  from fetch_all_pages [OF a b c d e f, of False] r s
  show ?thesis by (simp add: nrows_def)
qed

subsection \<open>Batches in \<^verbatim>\<open>evalmetrics\<close>\<close>

lemma range_step_pos:
  assumes "0 < n" and "0 < m"
  shows "range_step m n = 0 # map (\<lambda>s. s + n) (range_step (m - n) n)"
proof -
  have q: "(m + n - 1) div n = Suc ((m - n + n - 1) div n)"
  proof (cases "n \<le> m")
    case True
    then have "m + n - 1 = (m - n + n - 1) + n" using assms by simp
    then show ?thesis using assms by (simp only: div_add_self2)
  next
    case False
    then have "m + n - 1 < 2 * n" "n \<le> m + n - 1" "m - n = 0" using assms by simp_all
    then have "(m + n - 1) div n = 1"
      by (intro div_nat_eqI) simp_all
    moreover have "(m - n + n - 1) div n = 0" using \<open>m - n = 0\<close> assms by simp
    ultimately show ?thesis by simp
  qed
  have "[0..<Suc k] = 0 # map Suc [0..<k]" for k
    by (simp add: upt_conv_Cons map_Suc_upt del: upt_Suc)
  then show ?thesis
    unfolding range_step_def q by (simp add: comp_def del: upt_Suc)
qed

lemma range_step_0 [simp]: "range_step 0 n = []"
  by (cases n) (simp_all add: range_step_def)

lemma slices_batches:
  "0 < n \<Longrightarrow> map (\<lambda>s. take n (drop s xs)) (range_step (length xs) n) = batches n xs"
proof (induction n xs rule: batches.induct)
  case (1 n xs)
  show ?case
  proof (cases "xs = []")
    case True
    then show ?thesis by (simp add: batches.simps)
  next
    case False
    with 1 have IH: "map (\<lambda>s. take n (drop s (drop n xs))) (range_step (length (drop n xs)) n)
                     = batches n (drop n xs)" by simp
    have "range_step (length xs) n = 0 # map (\<lambda>s. s + n) (range_step (length xs - n) n)"
      using False 1(2) by (simp add: range_step_pos)
    then have "map (\<lambda>s. take n (drop s xs)) (range_step (length xs) n)
               = take n xs # map (\<lambda>s. take n (drop s (drop n xs))) (range_step (length (drop n xs)) n)"
      by (simp add: comp_def add.commute)
    with IH False 1(2) show ?thesis by (subst batches.simps) simp
  qed
qed

lemma concat_batches: "0 < n \<Longrightarrow> concat (batches n xs) = xs"
proof (induction n xs rule: batches.induct)
  case (1 n xs)
  then show ?case by (subst batches.simps) auto
qed

lemma batches_sizes: "b \<in> set (batches n xs) \<Longrightarrow> b \<noteq> [] \<and> length b \<le> n"
proof (induction n xs rule: batches.induct)
  case (1 n xs)
  from 1(2) have ne: "\<not> (n = 0 \<or> xs = [])"
    by (subst (asm) batches.simps) (auto split: if_splits)
  with 1(2) have "b = take n xs \<or> b \<in> set (batches n (drop n xs))"
    by (subst (asm) batches.simps) auto
  with 1(1) ne show ?case by auto
qed

lemma length_batches: "0 < n \<Longrightarrow> length (batches n xs) = (length xs + n - 1) div n"
  using slices_batches [of n xs, symmetric] by (simp add: range_step_def)


lemma for_each_log:
  assumes "\<And>i s log s' log'. i \<in> set xs \<Longrightarrow> Inv s \<Longrightarrow> step i s log = (Inr s', log') \<Longrightarrow>
             Inv s' \<and> log' = log @ R i"
    and "Inv s"
    and "for_each step xs s log = (Inr s', log')"
  shows "Inv s' \<and> log' = log @ concat (map R xs)"
  using assms
proof (induction xs arbitrary: s log)
  case Nil
  then show ?case by simp
next
  case (Cons i xs)
  obtain r log1 where st: "step i s log = (r, log1)" by (cases "step i s log")
  with Cons.prems(3) obtain s1 where r: "r = Inr s1"
    by (cases r) auto
  from Cons.prems(1) [of i s log s1 log1] Cons.prems(2) st r
  have 1: "Inv s1" "log1 = log @ R i" by simp_all
  from Cons.prems(3) st r have 2: "for_each step xs s1 log1 = (Inr s', log')" by simp
  have "Inv s' \<and> log' = log1 @ concat (map R xs)"
  proof (rule Cons.IH [OF _ 1(1) 2])
    fix j t l t' l'
    assume "j \<in> set xs" "Inv t" "step j t l = (Inr t', l')"
    with Cons.prems(1) [of j t l t' l'] show "Inv t' \<and> l' = l @ R j" by simp
  qed
  with 1(2) show ?case by simp
qed

lemma evalmetrics_batch_Inr:
  assumes "evalmetrics_batch srv typename (JArr ids) (JArr expressions) ids_start expressions_start st log
             = (Inr st', log')"
  shows "spec_update (fst st)
           [(''ids'', JArr (take 10 (drop ids_start ids))),
            (''expressions'', JArr (take 4 (drop expressions_start expressions)))] = Inr (fst st') \<and>
         log' = log @ [mk_request typename ''evalmetrics'' (fst st')]"
proof (cases "spec_update (fst st)
           [(''ids'', JArr (take 10 (drop ids_start ids))),
            (''expressions'', JArr (take 4 (drop expressions_start expressions)))]")
  case (Inl e)
  with assms show ?thesis by (simp add: evalmetrics_batch_def)
next
  case (Inr body')
  with assms show ?thesis
    by (auto simp: evalmetrics_batch_def read_data_json_eq split: sum.splits)
qed

lemma evalmetrics_loops_requests:
  assumes body: "map_of b ''spec'' = Some (JObj spec)"
    and run: "evalmetrics_loops srv typename (JArr ids) (JArr expressions) (length ids) (JObj b, df) log
                = (Inr st', log')"
  shows "log' = log @
           concat (map (\<lambda>ids_batch.
                     map (\<lambda>expressions_batch.
                            mk_request typename ''evalmetrics''
                              (JObj (AList.update ''spec''
                                 (JObj (AList.update ''expressions'' (JArr expressions_batch)
                                          (AList.update ''ids'' (JArr ids_batch) spec))) b)))
                       (batches 4 expressions))
                   (batches 10 ids))"
proof -
  let ?B = "\<lambda>ib eb. JObj (AList.update ''spec''
                 (JObj (AList.update ''expressions'' (JArr eb) (AList.update ''ids'' (JArr ib) spec))) b)"
  let ?Inv = "\<lambda>st. \<forall>x y. spec_update (fst st) [(''ids'', x), (''expressions'', y)]
                          = spec_update (JObj b) [(''ids'', x), (''expressions'', y)]"
  let ?req = "\<lambda>i s. mk_request typename ''evalmetrics''
                       (?B (take 10 (drop i ids)) (take 4 (drop s expressions)))"
  have B: "spec_update (JObj b) [(''ids'', JArr ib), (''expressions'', JArr eb)] = Inr (?B ib eb)" for ib eb
    using body by (simp add: spec_update_def dict_update_def)
  have batch: "?Inv st1 \<and> log1 = log0 @ [?req i s]"
    if "?Inv st" and "evalmetrics_batch srv typename (JArr ids) (JArr expressions) i s st log0 = (Inr st1, log1)"
    for i s st log0 st1 log1
  proof -
    from evalmetrics_batch_Inr [OF that(2)] that(1)
    have u: "spec_update (JObj b) [(''ids'', JArr (take 10 (drop i ids))),
                                  (''expressions'', JArr (take 4 (drop s expressions)))] = Inr (fst st1)"
      and l: "log1 = log0 @ [mk_request typename ''evalmetrics'' (fst st1)]"
      by simp_all
    from u B have f: "fst st1 = ?B (take 10 (drop i ids)) (take 4 (drop s expressions))" by simp
    have "?Inv st1"
    proof (intro allI)
      fix x y
      from spec_update_again [OF u, of x y] show
        "spec_update (fst st1) [(''ids'', x), (''expressions'', y)]
           = spec_update (JObj b) [(''ids'', x), (''expressions'', y)]" by simp
    qed
    with l f show ?thesis by simp
  qed
  have inner: "?Inv st1 \<and> log1 = log0 @ concat (map (\<lambda>s. [?req i s]) (range_step (length expressions) 4))"
    if "?Inv st"
      and "(case py_len (JArr expressions) of
             Inl e \<Rightarrow> (Inl e, log0)
           | Inr m \<Rightarrow> for_each (evalmetrics_batch srv typename (JArr ids) (JArr expressions) i)
                       (range_step m 4) st log0) = (Inr st1, log1)"
    for i st log0 st1 log1
  proof (rule for_each_log [where Inv = ?Inv and step = "evalmetrics_batch srv typename (JArr ids) (JArr expressions) i"])
    show "?Inv st" by (rule that(1))
    show "for_each (evalmetrics_batch srv typename (JArr ids) (JArr expressions) i)
            (range_step (length expressions) 4) st log0 = (Inr st1, log1)"
      using that(2) by simp
  next
    fix s t l t' l'
    assume "?Inv t" "evalmetrics_batch srv typename (JArr ids) (JArr expressions) i s t l = (Inr t', l')"
    then show "?Inv t' \<and> l' = l @ [?req i s]" by (rule batch)
  qed
  have "?Inv st' \<and>
        log' = log @ concat (map (\<lambda>i. concat (map (\<lambda>s. [?req i s]) (range_step (length expressions) 4)))
                               (range_step (length ids) 10))"
  proof (rule for_each_log [where Inv = ?Inv])
    show "?Inv (JObj b, df)" by simp
    show "for_each
            (\<lambda>ids_start st log.
               case py_len (JArr expressions) of
                 Inl e \<Rightarrow> (Inl e, log)
               | Inr m \<Rightarrow> for_each (evalmetrics_batch srv typename (JArr ids) (JArr expressions) ids_start)
                           (range_step m 4) st log)
            (range_step (length ids) 10) (JObj b, df) log = (Inr st', log')"
      using run by (simp add: evalmetrics_loops_def)
  next
    fix i t l t' l'
    assume "?Inv t"
      and "(case py_len (JArr expressions) of
             Inl e \<Rightarrow> (Inl e, l)
           | Inr m \<Rightarrow> for_each (evalmetrics_batch srv typename (JArr ids) (JArr expressions) i)
                       (range_step m 4) t l) = (Inr t', l')"
    then show "?Inv t' \<and> l' = l @ concat (map (\<lambda>s. [?req i s]) (range_step (length expressions) 4))"
      by (rule inner)
  qed
  then have "log' = log @ concat (map (\<lambda>i. map (\<lambda>s. ?req i s) (range_step (length expressions) 4))
                               (range_step (length ids) 10))"
    by simp
  also have "concat (map (\<lambda>i. map (\<lambda>s. ?req i s) (range_step (length expressions) 4))
                               (range_step (length ids) 10))
           = concat (map (\<lambda>ib. map (\<lambda>eb. mk_request typename ''evalmetrics'' (?B ib eb))
                                   (map (\<lambda>s. take 4 (drop s expressions)) (range_step (length expressions) 4)))
                         (map (\<lambda>i. take 10 (drop i ids)) (range_step (length ids) 10)))"
    by (simp add: comp_def)
  finally show ?thesis
    by (simp only: slices_batches [of 10 ids, simplified] slices_batches [of 4 expressions, simplified])
qed


lemma length_concat_product:
  "length (concat (map (\<lambda>x. map (f x) ys) xs)) = length xs * length ys"
  by (induction xs) auto

text \<open>
  C1. With \<^verbatim>\<open>get_all\<close>, when \<^verbatim>\<open>evalmetrics\<close> has assembled its frame from a spec
  with the lists \<open>ids\<close> and \<open>expressions\<close>, the requests it has sent are, in this
  order, one for every batch of at most 10 consecutive ids and, inside it, one for every
  batch of at most 4 consecutive expressions, the spec of each request holding that pair
  of batches. Their number is the product of the two numbers of batches, the batches of
  each list in order make up the list, and none is empty.
\<close>

theorem evalmetrics_batching:
  assumes "map_of b ''spec'' = Some (JObj spec)"
    and "map_of spec ''ids'' = Some (JArr ids)"
    and "map_of spec ''expressions'' = Some (JArr expressions)"
    and "evalmetrics_frame srv typename (JObj b) True log = (Inr df, log')"
  shows "log' = log @
           concat (map (\<lambda>ids_batch.
                     map (\<lambda>expressions_batch.
                            mk_request typename ''evalmetrics''
                              (JObj (AList.update ''spec''
                                 (JObj (AList.update ''expressions'' (JArr expressions_batch)
                                          (AList.update ''ids'' (JArr ids_batch) spec))) b)))
                       (batches 4 expressions))
                   (batches 10 ids)) \<and>
         length log' = length log + ((length ids + 9) div 10) * ((length expressions + 3) div 4) \<and>
         concat (batches 10 ids) = ids \<and>
         concat (batches 4 expressions) = expressions \<and>
         (\<forall>batch \<in> set (batches 10 ids). batch \<noteq> [] \<and> length batch \<le> 10) \<and>
         (\<forall>batch \<in> set (batches 4 expressions). batch \<noteq> [] \<and> length batch \<le> 4)"
proof -
  from assms obtain st' where
    "evalmetrics_loops srv typename (JArr ids) (JArr expressions) (length ids) (JObj b, DataFrame) log
       = (Inr st', log')"
    by (auto simp: evalmetrics_frame_def split: sum.splits prod.splits)
  from evalmetrics_loops_requests [OF assms(1) this]
  have l: "log' = log @
           concat (map (\<lambda>ids_batch.
                     map (\<lambda>expressions_batch.
                            mk_request typename ''evalmetrics''
                              (JObj (AList.update ''spec''
                                 (JObj (AList.update ''expressions'' (JArr expressions_batch)
                                          (AList.update ''ids'' (JArr ids_batch) spec))) b)))
                       (batches 4 expressions))
                   (batches 10 ids))" .
  have n: "length log' = length log + ((length ids + 9) div 10) * ((length expressions + 3) div 4)"
    unfolding l by (simp add: length_concat_product length_batches add.commute)
  from l n show ?thesis
    by (simp add: concat_batches batches_sizes)
qed

lemma unit_run:
  "evalmetrics_frame unit_server ''outbreaklocation''
     (JObj [(''spec'', JObj [(''ids'', JArr example_ids), (''expressions'', JArr example_expressions)])])
     True [] =
   (Inr \<lparr>index = [0],
         series = [(''v'', [Val (JNum 1)]), (''v'', [Val (JNum 1)]), (''v'', [Val (JNum 1)]),
                   (''v'', [Val (JNum 1)]), (''v'', [Val (JNum 1)]), (''v'', [Val (JNum 1)])]\<rparr>,
    map (\<lambda>(ids_batch, expressions_batch).
           mk_request ''outbreaklocation'' ''evalmetrics''
             (JObj [(''spec'', JObj [(''ids'', JArr ids_batch), (''expressions'', JArr expressions_batch)])]))
      [(take 10 example_ids, take 4 example_expressions),
       (take 10 example_ids, drop 4 example_expressions),
       (take 10 (drop 10 example_ids), take 4 example_expressions),
       (take 10 (drop 10 example_ids), drop 4 example_expressions),
       (drop 20 example_ids, take 4 example_expressions),
       (drop 20 example_ids, drop 4 example_expressions)])"
  by (simp add: evalmetrics_frame_def evalmetrics_loops_def evalmetrics_batch_def
      range_step_def upt_rec spec_update_def concat_columns_def
      unit_server_def example_ids_def example_expressions_def DataFrame_def run_defs)


theorem evalmetrics_batching_witness:
  "snd (evalmetrics_frame unit_server ''outbreaklocation''
          (JObj [(''spec'', JObj [(''ids'', JArr example_ids), (''expressions'', JArr example_expressions)])])
          True []) =
     map (\<lambda>(ids_batch, expressions_batch).
            mk_request ''outbreaklocation'' ''evalmetrics''
              (JObj [(''spec'', JObj [(''ids'', JArr ids_batch), (''expressions'', JArr expressions_batch)])]))
       [(take 10 example_ids, take 4 example_expressions),
        (take 10 example_ids, drop 4 example_expressions),
        (take 10 (drop 10 example_ids), take 4 example_expressions),
        (take 10 (drop 10 example_ids), drop 4 example_expressions),
        (drop 20 example_ids, take 4 example_expressions),
        (drop 20 example_ids, drop 4 example_expressions)] \<and>
   length (snd (evalmetrics_frame unit_server ''outbreaklocation''
          (JObj [(''spec'', JObj [(''ids'', JArr example_ids), (''expressions'', JArr example_expressions)])])
          True [])) = 6 \<and>
   length example_ids = 25 \<and> length example_expressions = 5"
proof -
  have a: "map_of [(''spec'', JObj [(''ids'', JArr example_ids), (''expressions'', JArr example_expressions)])]
             ''spec''
           = Some (JObj [(''ids'', JArr example_ids), (''expressions'', JArr example_expressions)])"
    by simp
  have b: "map_of [(''ids'', JArr example_ids), (''expressions'', JArr example_expressions)] ''ids''
           = Some (JArr example_ids)"
    by simp
  have c: "map_of [(''ids'', JArr example_ids), (''expressions'', JArr example_expressions)] ''expressions''
           = Some (JArr example_expressions)"
    by simp
  have n: "length example_ids = 25" "length example_expressions = 5"
    by (simp_all add: example_ids_def example_expressions_def)
  from evalmetrics_batching [OF a b c unit_run]
  show ?thesis by (simp (no_asm) add: unit_run n)
qed

end
